theory Spec2Isabelle
  imports Complex_Main "HOL-Library.Sublist"
begin

section \<open>MarkdownStreamRenderer: text, values and the external collaborators\<close>

text \<open>
  A shallow embedding of \<^verbatim>\<open>src/src/MarkdownStreamRenderer.js\<close> (the class with the
  typewriter scheduler, lines 1 to 323 of the file).

  A JavaScript string is a sequence of code units; it is modelled as a \<^typ>\<open>string\<close>, that is
  a list of \<^typ>\<open>char\<close>, so the texts covered are those whose code units are below 256.
  \<^verbatim>\<open>length\<close>, \<^verbatim>\<open>slice\<close>, \<^verbatim>\<open>charCodeAt\<close> and the regular expressions of the source all
  work on code units, as \<^const>\<open>length\<close>, \<^const>\<open>take\<close>, \<^const>\<open>drop\<close> and \<^const>\<open>nth\<close> do on the list.
\<close>

abbreviation BSL :: char where "BSL \<equiv> CHR 0x5C"
abbreviation LF :: char where "LF \<equiv> CHR 0x0A"
abbreviation CR :: char where "CR \<equiv> CHR 0x0D"
abbreviation TAB :: char where "TAB \<equiv> CHR 0x09"

text \<open>
  The class \<^verbatim>\<open>\s\<close> of a regular expression and the characters removed by
  \<^verbatim>\<open>String.prototype.trim\<close> are the same set (white space and line terminators); below 256
  these are TAB, LF, VT, FF, CR, SPACE and NBSP.
\<close>

definition isSpace :: "char \<Rightarrow> bool" where
  "isSpace c = (c \<in> set [CHR 0x09, CHR 0x0A, CHR 0x0B, CHR 0x0C, CHR 0x0D, CHR 0x20, CHR 0xA0])"

text \<open>Without the \<^verbatim>\<open>s\<close> flag, \<^verbatim>\<open>.\<close> matches every code unit but a line terminator.\<close>

definition isLineTerminator :: "char \<Rightarrow> bool" where
  "isLineTerminator c = (c = LF \<or> c = CR)"

definition isDigit :: "char \<Rightarrow> bool" where
  "isDigit c = (c \<in> set ''0123456789'')"

definition trim :: "string \<Rightarrow> string" where
  "trim s = rev (dropWhile isSpace (rev (dropWhile isSpace s)))"

definition startsWith :: "string \<Rightarrow> string \<Rightarrow> bool" where
  "startsWith s p = (take (length p) s = p)"

text \<open>\<^verbatim>\<open>input.replace(/\r\n/g, "\n")\<close>\<close>

fun crlfToLf :: "string \<Rightarrow> string" where
  "crlfToLf (a # b # r) = (if a = CR \<and> b = LF then LF # crlfToLf r else a # crlfToLf (b # r))"
| "crlfToLf s = s"

text \<open>\<^verbatim>\<open>s.split("\n")\<close>: the empty string splits into one empty line.\<close>

fun splitLines :: "string \<Rightarrow> string list" where
  "splitLines [] = [[]]"
| "splitLines (c # cs) =
     (if c = LF then [] # splitLines cs
      else (case splitLines cs of l # ls \<Rightarrow> (c # l) # ls | [] \<Rightarrow> [[c]]))"

text \<open>\<^verbatim>\<open>lines.join("\n")\<close>\<close>

fun joinLines :: "string list \<Rightarrow> string" where
  "joinLines [] = []"
| "joinLines [l] = l"
| "joinLines (l # ls) = l @ LF # joinLines ls"

section \<open>Bracket-style math: the two global replacements of \<^verbatim>\<open>_preprocess\<close>\<close>

text \<open>
  \<^verbatim>\<open>\\{1,2}d\<close> at the start of \<open>s\<close>, for a delimiter character \<open>d\<close>: greedy, so two
  backslashes are tried first, then one. The result is the text after the delimiter.
  When the two-backslash reading fails later in the pattern, the one-backslash reading has no
  match either (the second code unit is a backslash, not \<open>d\<close>), so nothing is lost by
  committing to the first reading that matches.
\<close>

definition delimAt :: "char \<Rightarrow> string \<Rightarrow> string option" where
  "delimAt d s =
     (if take 3 s = [BSL, BSL, d] then Some (drop 3 s)
      else if take 2 s = [BSL, d] then Some (drop 2 s)
      else None)"

text \<open>
  \<^verbatim>\<open>(.*?)\\{1,2}d\<close>: the lazy group grows one code unit at a time until the closing
  delimiter matches; \<open>dotAll\<close> is the \<^verbatim>\<open>s\<close> flag. The result is the captured group and
  the text after the closing delimiter.
\<close>

fun findClose :: "char \<Rightarrow> bool \<Rightarrow> string \<Rightarrow> (string \<times> string) option" where
  "findClose d dotAll [] = None"
| "findClose d dotAll (c # cs) =
     (case delimAt d (c # cs) of
        Some rest \<Rightarrow> Some ([], rest)
      | None \<Rightarrow>
          if \<not> dotAll \<and> isLineTerminator c then None
          else (case findClose d dotAll cs of
                  None \<Rightarrow> None
                | Some (inner, rest) \<Rightarrow> Some (c # inner, rest)))"

text \<open>One attempt of the whole pattern \<^verbatim>\<open>\\{1,2}o(.*?)\\{1,2}c\<close> at the start of \<open>s\<close>.\<close>

definition spanAt :: "char \<Rightarrow> char \<Rightarrow> bool \<Rightarrow> string \<Rightarrow> (string \<times> string) option" where
  "spanAt opn cls dotAll s =
     (case delimAt opn s of None \<Rightarrow> None | Some r \<Rightarrow> findClose cls dotAll r)"

lemma delimAt_shorter: "delimAt d s = Some r \<Longrightarrow> length r < length s"
  by (auto simp: delimAt_def split: if_splits) (cases s; simp)+

lemma findClose_shorter: "findClose d b s = Some (inner, r) \<Longrightarrow> length r < length s"
proof (induction s arbitrary: inner r)
  case Nil
  then show ?case by simp
next
  case (Cons c cs)
  show ?case
  proof (cases "delimAt d (c # cs)")
    case (Some rest)
    with Cons.prems have "r = rest" by simp
    with delimAt_shorter[OF Some] show ?thesis by simp
  next
    case None
    with Cons.prems obtain inner' where "findClose d b cs = Some (inner', r)"
      by (auto split: if_splits option.splits)
    from Cons.IH[OF this] show ?thesis by simp
  qed
qed

lemma spanAt_shorter: "spanAt opn cls b s = Some (inner, r) \<Longrightarrow> length r < length s"
  unfolding spanAt_def
  by (auto split: option.splits dest!: delimAt_shorter findClose_shorter)

text \<open>
  \<^verbatim>\<open>text.replace(/\\{1,2}o(.*?)\\{1,2}c/g, (_, inner) => wrap(inner))\<close>: the scan goes from
  left to right; where the pattern matches, the match is replaced and the scan goes on after
  it; where it does not, the code unit is copied and the scan moves one position on.
\<close>

function replaceSpans :: "char \<Rightarrow> char \<Rightarrow> bool \<Rightarrow> (string \<Rightarrow> string) \<Rightarrow> string \<Rightarrow> string" where
  "replaceSpans opn cls dotAll wrap [] = []"
| "replaceSpans opn cls dotAll wrap (x # xs) =
     (case spanAt opn cls dotAll (x # xs) of
        Some (inner, rest) \<Rightarrow> wrap inner @ replaceSpans opn cls dotAll wrap rest
      | None \<Rightarrow> x # replaceSpans opn cls dotAll wrap xs)"
  by pat_completeness auto
termination
  by (relation "measure (\<lambda>(opn, cls, dotAll, wrap, s). length s)")
     (auto dest: spanAt_shorter)

text \<open>\<^verbatim>\<open>out.replace(/\\{1,2}\[(.*?)\\{1,2}\]/gs, (_, inner) => `$$\n${inner}\n$$`)\<close>\<close>

definition blockWrap :: "string \<Rightarrow> string" where
  "blockWrap inner = ''$$'' @ [LF] @ inner @ [LF] @ ''$$''"

definition replaceBlockMath :: "string \<Rightarrow> string" where
  "replaceBlockMath = replaceSpans (CHR ''['') (CHR '']'') True blockWrap"

text \<open>\<^verbatim>\<open>out.replace(/\\{1,2}\((.*?)\\{1,2}\)/g, (_, inner) => `$${inner}$`)\<close>\<close>

definition inlineWrap :: "string \<Rightarrow> string" where
  "inlineWrap inner = ''$'' @ inner @ ''$''"

definition replaceInlineMath :: "string \<Rightarrow> string" where
  "replaceInlineMath = replaceSpans (CHR ''('') (CHR '')'') False inlineWrap"

section \<open>\<^verbatim>\<open>_normalizeInlineDollars\<close>\<close>

text \<open>
  \<^verbatim>\<open>line.replace(/(?<![$\s])\$(?!\$)/g, ' $')\<close>: \<open>prev\<close> is the code unit before the
  current position in the line (\<open>None\<close> at its start, where the negative lookbehind holds).
\<close>

fun padBefore :: "char option \<Rightarrow> string \<Rightarrow> string" where
  "padBefore prev [] = []"
| "padBefore prev (c # cs) =
     (if c = CHR ''$''
         \<and> \<not> (case prev of Some p \<Rightarrow> p = CHR ''$'' \<or> isSpace p | None \<Rightarrow> False)
         \<and> \<not> (case cs of n # _ \<Rightarrow> n = CHR ''$'' | [] \<Rightarrow> False)
      then '' $'' else [c]) @ padBefore (Some c) cs"

text \<open>\<^verbatim>\<open>line.replace(/(?<!\$)\$(?![\$\s])/g, '$ ')\<close>\<close>

fun padAfter :: "char option \<Rightarrow> string \<Rightarrow> string" where
  "padAfter prev [] = []"
| "padAfter prev (c # cs) =
     (if c = CHR ''$''
         \<and> \<not> (case prev of Some p \<Rightarrow> p = CHR ''$'' | None \<Rightarrow> False)
         \<and> \<not> (case cs of n # _ \<Rightarrow> n = CHR ''$'' \<or> isSpace n | [] \<Rightarrow> False)
      then ''$ '' else [c]) @ padAfter (Some c) cs"

definition isFenceLine :: "string \<Rightarrow> bool" where
  "isFenceLine t = (startsWith t ''```'' \<or> startsWith t ''~~~'')"

text \<open>The loop over the lines, with its two toggles \<^verbatim>\<open>code\<close> and \<^verbatim>\<open>blockMath\<close>.\<close>

fun dollarLines :: "bool \<Rightarrow> bool \<Rightarrow> string list \<Rightarrow> string list" where
  "dollarLines code blockMath [] = []"
| "dollarLines code blockMath (l # ls) =
     (let t = trim l in
      if isFenceLine t then l # dollarLines (\<not> code) blockMath ls
      else if startsWith t ''$$'' \<and> \<not> code then l # dollarLines code (\<not> blockMath) ls
      else if code \<or> blockMath then l # dollarLines code blockMath ls
      else padAfter None (padBefore None l) # dollarLines code blockMath ls)"

definition normalizeInlineDollars :: "string \<Rightarrow> string" where
  "normalizeInlineDollars input = joinLines (dollarLines False False (splitLines (crlfToLf input)))"

section \<open>\<^verbatim>\<open>_applyHardBreaks\<close>\<close>

text \<open>
  \<^verbatim>\<open>/^(#{1,6}\s|>\s|([-+*])\s|\d+\.\s|(```|~~~)|\s*<|\s*$)/.test(nt)\<close>, one definition for
  each alternative. The pattern has no \<^verbatim>\<open>m\<close> flag: \<^verbatim>\<open>$\<close> is the end of the text.
\<close>

definition headingStart :: "string \<Rightarrow> bool" where
  "headingStart nt =
     list_ex (\<lambda>k. take k nt = replicate k (CHR ''#'') \<and> k < length nt \<and> isSpace (nt ! k)) [1..<7]"

definition quoteStart :: "string \<Rightarrow> bool" where
  "quoteStart nt = (case nt of a # b # _ \<Rightarrow> a = CHR ''>'' \<and> isSpace b | _ \<Rightarrow> False)"

definition bulletStart :: "string \<Rightarrow> bool" where
  "bulletStart nt = (case nt of a # b # _ \<Rightarrow> a \<in> set ''-+*'' \<and> isSpace b | _ \<Rightarrow> False)"

definition numberedStart :: "string \<Rightarrow> bool" where
  "numberedStart nt =
     (takeWhile isDigit nt \<noteq> [] \<and>
      (case dropWhile isDigit nt of a # b # _ \<Rightarrow> a = CHR ''.'' \<and> isSpace b | _ \<Rightarrow> False))"

definition htmlStart :: "string \<Rightarrow> bool" where
  "htmlStart nt = (case dropWhile isSpace nt of a # _ \<Rightarrow> a = CHR ''<'' | [] \<Rightarrow> False)"

definition blankText :: "string \<Rightarrow> bool" where
  "blankText nt = (dropWhile isSpace nt = [])"

definition blockStart :: "string \<Rightarrow> bool" where
  "blockStart nt =
     (headingStart nt \<or> quoteStart nt \<or> bulletStart nt \<or> numberedStart nt
      \<or> isFenceLine nt \<or> htmlStart nt \<or> blankText nt)"

text \<open>
  \<^verbatim>\<open>/^<\/(div|p|section|article|header|footer|table|ul|ol|li|pre|blockquote)>\s*$/.test(t)\<close>
\<close>

definition blockTags :: "string list" where
  "blockTags = [''div'', ''p'', ''section'', ''article'', ''header'', ''footer'', ''table'',
                ''ul'', ''ol'', ''li'', ''pre'', ''blockquote'']"

definition closingHtmlBlock :: "string \<Rightarrow> bool" where
  "closingHtmlBlock t =
     list_ex (\<lambda>tag. let p = ''</'' @ tag @ ''>'' in
                startsWith t p \<and> blankText (drop (length p) t)) blockTags"

text \<open>\<^verbatim>\<open>/\s\s$/.test(line)\<close>\<close>

definition endsTwoSpace :: "string \<Rightarrow> bool" where
  "endsTwoSpace line = (case rev line of a # b # _ \<Rightarrow> isSpace a \<and> isSpace b | _ \<Rightarrow> False)"

text \<open>
  The loop over the lines. \<^verbatim>\<open>next\<close> is the line after the current one, or the empty string
  at the last line; \<^verbatim>\<open>res.push\<close> becomes the list that is returned.
\<close>

fun hardBreakLines :: "bool \<Rightarrow> bool \<Rightarrow> string list \<Rightarrow> string list" where
  "hardBreakLines code math [] = []"
| "hardBreakLines code math (line # ls) =
     (let t = trim line in
      if isFenceLine t then line # hardBreakLines (\<not> code) math ls
      else if startsWith t ''$$'' \<and> \<not> code then line # hardBreakLines code (\<not> math) ls
      else if \<not> code \<and> \<not> math then
        (let nxt = (case ls of [] \<Rightarrow> [] | n # _ \<Rightarrow> n);
             nt = trim nxt;
             line' = (if t \<noteq> [] \<and> nt \<noteq> [] \<and> \<not> blockStart nt \<and> \<not> endsTwoSpace line
                      then line @ ''  '' else line)
         in if closingHtmlBlock t \<and> nt \<noteq> [] \<and> \<not> blockStart nt
            then line' # [] # hardBreakLines code math ls
            else line' # hardBreakLines code math ls)
      else line # hardBreakLines code math ls)"

definition applyHardBreaks :: "string \<Rightarrow> string" where
  "applyHardBreaks input = joinLines (hardBreakLines False False (splitLines (crlfToLf input)))"

section \<open>\<^verbatim>\<open>_preprocess\<close>\<close>

record mathSyntax =
  brackets :: bool
  dollars :: bool

definition preprocess :: "mathSyntax \<Rightarrow> bool \<Rightarrow> string \<Rightarrow> string" where
  "preprocess ms respectNewlines text =
     (if \<not> brackets ms then text
      else
        let out = replaceBlockMath text;
            out = replaceInlineMath out;
            out = (if dollars ms then normalizeInlineDollars out else out);
            out = (if respectNewlines then applyHardBreaks out else out)
        in out)"

section \<open>The renderer instance and its environment\<close>

text \<open>
  A JavaScript number is a double: a finite value, an infinity or NaN. The finite values are
  modelled as rationals, which every finite double is.
\<close>

datatype number = Finite rat | PosInfinity | NegInfinity | NaN

text \<open>\<^verbatim>\<open>n > 0\<close>\<close>

definition positive :: "number \<Rightarrow> bool" where
  "positive n = (case n of Finite r \<Rightarrow> 0 < r | PosInfinity \<Rightarrow> True | _ \<Rightarrow> False)"

text \<open>Arguments of the public methods are JavaScript values.\<close>

datatype js_value = Undefined | Null | Bool bool | Num number | Str string | Obj

text \<open>
  The parser (\<^verbatim>\<open>micromark\<close>), the sanitizer (\<^verbatim>\<open>DOMPurify.sanitize\<close>) and the code behind a
  listener are external: they are parameters of the model. The parser may throw, the
  sanitizer returns. Extensions and sanitizer options are opaque objects, named by numbers;
  \<open>Math\<close> and \<open>MathHtml\<close> are the objects made by \<^verbatim>\<open>math(mo)\<close> and \<^verbatim>\<open>mathHtml(ko)\<close> in the
  constructor.
\<close>

datatype exn = Thrown nat

datatype extension = Math bool | Ext nat

datatype htmlExtension = MathHtml | HtmlExt nat

record parseOptions =
  po_extensions :: "extension list"
  po_htmlExtensions :: "htmlExtension list"
  po_allowDangerousHtml :: bool

text \<open>
  The listener is either a function given by the caller (\<^verbatim>\<open>onChunk\<close>, \<^verbatim>\<open>on(fn)\<close>) or the
  closure that \<^verbatim>\<open>renderTo(el)\<close> installs, which writes \<^verbatim>\<open>el.innerHTML\<close>. Functions and
  elements are named by numbers.
\<close>

datatype listener = Callback nat | DomWriter nat

text \<open>
  \<open>listenerRaises l html\<close> is what the invocation of \<open>l\<close> with \<open>html\<close> throws, if it throws.
  For the closure of \<^verbatim>\<open>renderTo\<close> this is the part that adds class names to the nodes of the
  element (\<^verbatim>\<open>querySelectorAll\<close>, \<^verbatim>\<open>classList.add\<close>), which runs after the assignment of
  \<^verbatim>\<open>innerHTML\<close>. A listener does not call back into the instance.
\<close>

record collaborators =
  micromark :: "string \<Rightarrow> parseOptions \<Rightarrow> exn + string"
  sanitize :: "string \<Rightarrow> nat \<Rightarrow> string"
  listenerRaises :: "listener \<Rightarrow> string \<Rightarrow> exn option"

record typewriter =
  enabled :: bool
  intervalMs :: number
  step :: number

text \<open>
  The fields of the instance (\<^verbatim>\<open>this.*\<close>), followed by the environment it acts on: the
  timers that are live in the event loop (handle and delay), the next free timer handle, and
  three logs that record what happened: the listener invocations (\<open>calls\<close>), the render
  passes, with one entry for each call of \<^verbatim>\<open>_emit\<close> that holds the text the pass hands to
  the parser in its \<^verbatim>\<open>try\<close> block (\<open>passes\<close>), and the assignments to \<^verbatim>\<open>el.innerHTML\<close>
  (\<open>domWrites\<close>). Timer handles are truthy values (positive integers in a
  browser, objects in Node), so \<^verbatim>\<open>if (this.timer)\<close> is \<open>timer w \<noteq> None\<close>.
\<close>

record state =
  extensions :: "extension list"
  htmlExtensions :: "htmlExtension list"
  mathSyntax :: mathSyntax
  allowHtml :: bool
  respectNewlines :: bool
  typewriter :: typewriter
  twQueue :: "string list"
  twTimer :: "nat option"
  sanitizeOptions :: nat
  throttleMs :: number
  buffer :: string
  timer :: "nat option"
  listener :: "listener option"
  prevHtml :: string
  timeouts :: "(nat \<times> number) list"
  intervals :: "(nat \<times> number) list"
  nextHandle :: nat
  calls :: "(listener \<times> string) list"
  passes :: "string list"
  domWrites :: "(nat \<times> string) list"

subsection \<open>The constructor\<close>

record typewriterOptions =
  o_enabled :: bool
  o_intervalMs :: js_value
  o_step :: js_value

record options =
  o_extensions :: "extension list"
  o_htmlExtensions :: "htmlExtension list"
  o_sanitizeOptions :: nat
  o_throttleMs :: js_value
  o_onChunk :: "nat option"
  o_useMath :: bool
  o_singleDollarTextMath :: bool
  o_mathSyntax :: mathSyntax
  o_allowHtml :: bool
  o_respectNewlines :: bool
  o_typewriter :: typewriterOptions

text \<open>
  \<^verbatim>\<open>o_onChunk\<close> is \<open>Some f\<close> for a function and \<open>None\<close> for any other value. The style
  elements that the constructor adds to the document are outside the model.
\<close>

definition construct :: "options \<Rightarrow> state" where
  "construct opts =
     (let ms = o_mathSyntax opts;
          tw = o_typewriter opts
      in \<lparr> extensions =
             (if o_useMath opts
              then Math (if \<not> dollars ms then False else o_singleDollarTextMath opts)
                     # o_extensions opts
              else o_extensions opts),
           htmlExtensions =
             (if o_useMath opts then MathHtml # o_htmlExtensions opts else o_htmlExtensions opts),
           mathSyntax = ms,
           allowHtml = o_allowHtml opts,
           respectNewlines = o_respectNewlines opts,
           typewriter =
             \<lparr> enabled = o_enabled tw,
               intervalMs = (case o_intervalMs tw of Num n \<Rightarrow> n | _ \<Rightarrow> Finite 24),
               step = (case o_step tw of
                         Num n \<Rightarrow> if positive n then n else Finite 1
                       | _ \<Rightarrow> Finite 1) \<rparr>,
           twQueue = [],
           twTimer = None,
           sanitizeOptions = o_sanitizeOptions opts,
           throttleMs = (case o_throttleMs opts of Num n \<Rightarrow> n | _ \<Rightarrow> Finite 16),
           buffer = [],
           timer = None,
           listener = map_option Callback (o_onChunk opts),
           prevHtml = [],
           timeouts = [],
           intervals = [],
           nextHandle = 1,
           calls = [],
           passes = [],
           domWrites = [] \<rparr>)"

subsection \<open>Timers\<close>

text \<open>\<^verbatim>\<open>clearTimeout(h)\<close> and \<^verbatim>\<open>clearInterval(h)\<close>; with \<^verbatim>\<open>null\<close> they do nothing.\<close>

definition clearTimeout :: "nat option \<Rightarrow> state \<Rightarrow> state" where
  "clearTimeout h w = w\<lparr>timeouts := filter (\<lambda>(k, d). Some k \<noteq> h) (timeouts w)\<rparr>"

definition clearInterval :: "nat option \<Rightarrow> state \<Rightarrow> state" where
  "clearInterval h w = w\<lparr>intervals := filter (\<lambda>(k, d). Some k \<noteq> h) (intervals w)\<rparr>"

text \<open>\<^verbatim>\<open>_schedule\<close>: the callback of the timer is \<open>timeoutCallback\<close> below.\<close>

definition schedule :: "state \<Rightarrow> state" where
  "schedule w =
     (if timer w \<noteq> None then w
      else w\<lparr>timer := Some (nextHandle w),
             timeouts := timeouts w @ [(nextHandle w, throttleMs w)],
             nextHandle := Suc (nextHandle w)\<rparr>)"

text \<open>\<^verbatim>\<open>_startTypewriter\<close>: the callback of the interval is \<open>intervalCallback\<close> below.\<close>

definition startTypewriter :: "state \<Rightarrow> state" where
  "startTypewriter w =
     (if twTimer w \<noteq> None then w
      else w\<lparr>twTimer := Some (nextHandle w),
             intervals := intervals w @ [(nextHandle w, intervalMs (typewriter w))],
             nextHandle := Suc (nextHandle w)\<rparr>)"

subsection \<open>\<^verbatim>\<open>_emit\<close>\<close>

text \<open>
  \<^verbatim>\<open>if (this.listener) this.listener(safe)\<close>. The call is not guarded: what the listener
  throws leaves \<^verbatim>\<open>_emit\<close>. The closure of \<^verbatim>\<open>renderTo\<close> assigns \<^verbatim>\<open>el.innerHTML\<close> only when
  the text differs from \<^verbatim>\<open>this.prevHtml\<close>.
\<close>

definition notify :: "collaborators \<Rightarrow> string \<Rightarrow> state \<Rightarrow> exn option \<times> state" where
  "notify E safe w =
     (case listener w of
        None \<Rightarrow> (None, w)
      | Some (Callback f) \<Rightarrow>
          (listenerRaises E (Callback f) safe, w\<lparr>calls := calls w @ [(Callback f, safe)]\<rparr>)
      | Some (DomWriter el) \<Rightarrow>
          (listenerRaises E (DomWriter el) safe,
           if safe \<noteq> prevHtml w
           then w\<lparr>calls := calls w @ [(DomWriter el, safe)],
                  domWrites := domWrites w @ [(el, safe)],
                  prevHtml := safe\<rparr>
           else w\<lparr>calls := calls w @ [(DomWriter el, safe)]\<rparr>))"

definition fullOptions :: "state \<Rightarrow> parseOptions" where
  "fullOptions w = \<lparr> po_extensions = extensions w, po_htmlExtensions = htmlExtensions w,
                     po_allowDangerousHtml = allowHtml w \<rparr>"

definition minimalOptions :: "state \<Rightarrow> parseOptions" where
  "minimalOptions w = \<lparr> po_extensions = [], po_htmlExtensions = [],
                        po_allowDangerousHtml = allowHtml w \<rparr>"

text \<open>
  The source of a pass: the forced text when \<^verbatim>\<open>forceHtml\<close> is a string, the preprocessed
  buffer otherwise.
\<close>

definition emitSource :: "js_value \<Rightarrow> state \<Rightarrow> string" where
  "emitSource forceHtml w =
     (case forceHtml of
        Str s \<Rightarrow> s
      | _ \<Rightarrow> preprocess (mathSyntax w) (respectNewlines w) (buffer w))"

text \<open>
  The \<^verbatim>\<open>try\<close> block holds the first call of the parser, on \<open>source\<close>; the \<^verbatim>\<open>catch\<close> block
  holds the second, on the raw buffer, and nothing catches what the second call throws.
\<close>

definition parseWithFallback :: "collaborators \<Rightarrow> string \<Rightarrow> state \<Rightarrow> exn + string" where
  "parseWithFallback E source w =
     (case micromark E source (fullOptions w) of
        Inr html \<Rightarrow> Inr html
      | Inl err \<Rightarrow> micromark E (buffer w) (minimalOptions w))"

definition emit :: "collaborators \<Rightarrow> js_value \<Rightarrow> state \<Rightarrow> (exn + string) \<times> state" where
  "emit E forceHtml w =
     (let source = emitSource forceHtml w;
          w1 = w\<lparr>passes := passes w @ [source]\<rparr>
      in case parseWithFallback E source w of
           Inl err \<Rightarrow> (Inl err, w1)
         | Inr html \<Rightarrow>
             (let safe = sanitize E html (sanitizeOptions w)
              in case notify E safe w1 of
                   (Some err, w2) \<Rightarrow> (Inl err, w2)
                 | (None, w2) \<Rightarrow> (Inr safe, w2)))"

subsection \<open>The public methods\<close>

definition "write" :: "js_value \<Rightarrow> state \<Rightarrow> state" where
  "write chunk w =
     (case chunk of
        Str s \<Rightarrow>
          if s = [] then w
          else if enabled (typewriter w) then startTypewriter (w\<lparr>twQueue := twQueue w @ [s]\<rparr>)
          else schedule (w\<lparr>buffer := buffer w @ s\<rparr>)
      | _ \<Rightarrow> w)"

definition flush :: "collaborators \<Rightarrow> state \<Rightarrow> exn option \<times> state" where
  "flush E w = (case emit E Undefined w of (Inl err, w') \<Rightarrow> (Some err, w') | (Inr safe, w') \<Rightarrow> (None, w'))"

definition clear :: "collaborators \<Rightarrow> state \<Rightarrow> exn option \<times> state" where
  "clear E w =
     (let w1 = w\<lparr>buffer := [], twQueue := []\<rparr>;
          w2 = (if twTimer w1 \<noteq> None then (clearInterval (twTimer w1) w1)\<lparr>twTimer := None\<rparr> else w1)
      in case emit E (Str []) w2 of (Inl err, w') \<Rightarrow> (Some err, w') | (Inr safe, w') \<Rightarrow> (None, w'))"

definition destroy :: "state \<Rightarrow> state" where
  "destroy w =
     (let w1 = w\<lparr>buffer := [], twQueue := []\<rparr>;
          w2 = (if timer w1 \<noteq> None then (clearTimeout (timer w1) w1)\<lparr>timer := None\<rparr> else w1);
          w3 = (if twTimer w2 \<noteq> None then (clearInterval (twTimer w2) w2)\<lparr>twTimer := None\<rparr> else w2)
      in w3\<lparr>listener := None\<rparr>)"

text \<open>\<^verbatim>\<open>on(fn)\<close>: \<open>Some f\<close> is a function, \<open>None\<close> any other value.\<close>

definition on :: "nat option \<Rightarrow> state \<Rightarrow> state" where
  "on fn w = w\<lparr>listener := map_option Callback fn\<rparr>"

text \<open>\<^verbatim>\<open>renderTo(el)\<close>: \<open>Some e\<close> is an element, \<open>None\<close> a falsy value.\<close>

definition renderTo :: "nat option \<Rightarrow> state \<Rightarrow> state" where
  "renderTo el w = (case el of None \<Rightarrow> w | Some e \<Rightarrow> w\<lparr>listener := Some (DomWriter e)\<rparr>)"

text \<open>\<open>Some xs\<close> is an array, \<open>None\<close> any other value.\<close>

definition registerExtensions :: "extension list option \<Rightarrow> state \<Rightarrow> state" where
  "registerExtensions exts w =
     (case exts of None \<Rightarrow> w | Some xs \<Rightarrow> w\<lparr>extensions := extensions w @ xs\<rparr>)"

definition registerHtmlExtensions :: "htmlExtension list option \<Rightarrow> state \<Rightarrow> state" where
  "registerHtmlExtensions exts w =
     (case exts of None \<Rightarrow> w | Some xs \<Rightarrow> w\<lparr>htmlExtensions := htmlExtensions w @ xs\<rparr>)"

text \<open>\<^verbatim>\<open>opts || {}\<close>: the empty options object is number 0.\<close>

definition setSanitizeOptions :: "nat option \<Rightarrow> state \<Rightarrow> state" where
  "setSanitizeOptions opts w = w\<lparr>sanitizeOptions := (case opts of None \<Rightarrow> 0 | Some k \<Rightarrow> k)\<rparr>"

text \<open>
  \<^verbatim>\<open>s.slice(0, n)\<close> and \<^verbatim>\<open>s.slice(n)\<close>. The argument is first made an integer: NaN
  becomes 0, a finite value loses its fraction (towards zero), an infinity stays. A negative
  index then counts from the end, and every index is clamped to the text.
\<close>

definition truncated :: "rat \<Rightarrow> int" where
  "truncated r = (if r < 0 then - \<lfloor>- r\<rfloor> else \<lfloor>r\<rfloor>)"

definition sliceIndex :: "string \<Rightarrow> number \<Rightarrow> nat" where
  "sliceIndex s n =
     (case n of
        NaN \<Rightarrow> 0
      | NegInfinity \<Rightarrow> 0
      | PosInfinity \<Rightarrow> length s
      | Finite r \<Rightarrow>
          (let k = truncated r
           in if k < 0 then nat (max (int (length s) + k) 0) else min (nat k) (length s)))"

definition sliceTo :: "string \<Rightarrow> number \<Rightarrow> string" where
  "sliceTo s n = take (sliceIndex s n) s"

definition sliceFrom :: "string \<Rightarrow> number \<Rightarrow> string" where
  "sliceFrom s n = drop (sliceIndex s n) s"

text \<open>
  The loop of \<^verbatim>\<open>update\<close>:
  \<^verbatim>\<open>while (i < max && old.charCodeAt(i) === newStr.charCodeAt(i)) i++\<close>
\<close>

function prefixLoop :: "string \<Rightarrow> string \<Rightarrow> nat \<Rightarrow> nat \<Rightarrow> nat" where
  "prefixLoop old newStr mx i =
     (if i < mx \<and> old ! i = newStr ! i then prefixLoop old newStr mx (Suc i) else i)"
  by pat_completeness auto
termination
  by (relation "measure (\<lambda>(old, newStr, mx, i). mx - i)") auto

declare prefixLoop.simps [simp del]

definition update :: "js_value \<Rightarrow> state \<Rightarrow> state" where
  "update text w =
     (case text of
        Str newStr \<Rightarrow>
          if enabled (typewriter w) then
            (let old = buffer w;
                 mx = min (length old) (length newStr);
                 i = prefixLoop old newStr mx 0;
                 isInitial = (length old = 0 \<and> length newStr > 0);
                 isAppend = (i = length old \<and> length newStr > length old)
             in if isInitial then startTypewriter (w\<lparr>twQueue := twQueue w @ [newStr]\<rparr>)
                else if isAppend then
                  (let delta = sliceFrom newStr (Finite (of_nat i))
                   in if delta \<noteq> [] then startTypewriter (w\<lparr>twQueue := twQueue w @ [delta]\<rparr>)
                      else w)
                else
                  (let w1 = w\<lparr>twQueue := []\<rparr>;
                       w2 = (if twTimer w1 \<noteq> None
                             then (clearInterval (twTimer w1) w1)\<lparr>twTimer := None\<rparr> else w1)
                   in schedule (w2\<lparr>buffer := newStr\<rparr>)))
          else schedule (w\<lparr>buffer := newStr\<rparr>)
      | _ \<Rightarrow> w)"

subsection \<open>The timer callbacks\<close>

text \<open>The callback that \<^verbatim>\<open>_schedule\<close> gives to \<^verbatim>\<open>setTimeout\<close>.\<close>

definition timeoutCallback :: "collaborators \<Rightarrow> state \<Rightarrow> exn option \<times> state" where
  "timeoutCallback E w =
     (case emit E Undefined (w\<lparr>timer := None\<rparr>) of
        (Inl err, w') \<Rightarrow> (Some err, w')
      | (Inr safe, w') \<Rightarrow> (None, w'))"

text \<open>The callback that \<^verbatim>\<open>_startTypewriter\<close> gives to \<^verbatim>\<open>setInterval\<close>.\<close>

definition intervalCallback :: "state \<Rightarrow> state" where
  "intervalCallback w =
     (case twQueue w of
        [] \<Rightarrow> (clearInterval (twTimer w) w)\<lparr>twTimer := None\<rparr>
      | current # q \<Rightarrow>
          (let tk = sliceTo current (step (typewriter w));
               rest = sliceFrom current (step (typewriter w));
               w1 = (if length rest > 0 then w\<lparr>twQueue := rest # q\<rparr> else w\<lparr>twQueue := q\<rparr>)
           in schedule (w1\<lparr>buffer := buffer w1 @ tk\<rparr>)))"

subsection \<open>Runs of the instance\<close>

text \<open>
  What can happen to an instance: a call of a public method, or the event loop firing one of
  the live timers. A one-shot timer leaves the event loop when it fires; a timer that is not
  live does not fire.
\<close>

datatype event =
    Write js_value
  | Update js_value
  | Flush
  | Clear
  | Destroy
  | On "nat option"
  | RenderTo "nat option"
  | RegisterExtensions "extension list option"
  | RegisterHtmlExtensions "htmlExtension list option"
  | SetSanitizeOptions "nat option"
  | TimeoutFires nat
  | IntervalFires nat

fun perform :: "collaborators \<Rightarrow> event \<Rightarrow> state \<Rightarrow> exn option \<times> state" where
  "perform E (Write v) w = (None, write v w)"
| "perform E (Update v) w = (None, update v w)"
| "perform E Flush w = flush E w"
| "perform E Clear w = clear E w"
| "perform E Destroy w = (None, destroy w)"
| "perform E (On fn) w = (None, on fn w)"
| "perform E (RenderTo el) w = (None, renderTo el w)"
| "perform E (RegisterExtensions xs) w = (None, registerExtensions xs w)"
| "perform E (RegisterHtmlExtensions xs) w = (None, registerHtmlExtensions xs w)"
| "perform E (SetSanitizeOptions opts) w = (None, setSanitizeOptions opts w)"
| "perform E (TimeoutFires h) w =
     (if h \<in> fst ` set (timeouts w)
      then timeoutCallback E (w\<lparr>timeouts := filter (\<lambda>(k, d). k \<noteq> h) (timeouts w)\<rparr>)
      else (None, w))"
| "perform E (IntervalFires h) w =
     (if h \<in> fst ` set (intervals w) then (None, intervalCallback w) else (None, w))"

text \<open>
  A run performs the events in order. An exception goes to the caller of the method or to the
  event loop; the instance lives on in the state the exception left.
\<close>

fun run :: "collaborators \<Rightarrow> event list \<Rightarrow> state \<Rightarrow> state" where
  "run E [] w = w"
| "run E (ev # evs) w = run E evs (snd (perform E ev w))"

section \<open>Notions used to state the properties\<close>

text \<open>\<^verbatim>\<open>typeof v === 'string'\<close>\<close>

definition isString :: "js_value \<Rightarrow> bool" where
  "isString v = (case v of Str s \<Rightarrow> True | _ \<Rightarrow> False)"

text \<open>The defaults of the constructor's destructuring pattern.\<close>

definition defaultOptions :: options where
  "defaultOptions =
     \<lparr> o_extensions = [], o_htmlExtensions = [], o_sanitizeOptions = 0,
       o_throttleMs = Num (Finite 16), o_onChunk = None, o_useMath = True,
       o_singleDollarTextMath = True,
       o_mathSyntax = \<lparr>brackets = True, dollars = False\<rparr>,
       o_allowHtml = True, o_respectNewlines = False,
       o_typewriter = \<lparr>o_enabled = False, o_intervalMs = Num (Finite 24),
                        o_step = Num (Finite 1)\<rparr> \<rparr>"

text \<open>The defaults with a listener function given as \<^verbatim>\<open>onChunk\<close>.\<close>

definition listeningOptions :: options where
  "listeningOptions = defaultOptions\<lparr>o_onChunk := Some 0\<rparr>"

text \<open>The defaults with the typewriter switched on.\<close>

definition typewriterOnOptions :: options where
  "typewriterOnOptions =
     defaultOptions\<lparr>o_typewriter := \<lparr>o_enabled = True, o_intervalMs = Num (Finite 24),
                                     o_step = Num (Finite 1)\<rparr>\<rparr>"


text \<open>
  Instances of the collaborators for concrete runs: a parser that returns its input, one
  that does so only when it is given no extension and throws otherwise, and one that throws
  at every call, each with a sanitizer that returns its input and listeners that return;
  and the first of them with listeners that throw.
\<close>

definition plainCollaborators :: collaborators where
  "plainCollaborators =
     \<lparr> micromark = (\<lambda>src po. Inr src), sanitize = (\<lambda>html so. html),
       listenerRaises = (\<lambda>l html. None) \<rparr>"


definition throwingCollaborators :: collaborators where
  "throwingCollaborators =
     \<lparr> micromark = (\<lambda>src po. Inl (Thrown 0)), sanitize = (\<lambda>html so. html),
       listenerRaises = (\<lambda>l html. None) \<rparr>"

definition throwingListenerCollaborators :: collaborators where
  "throwingListenerCollaborators =
     \<lparr> micromark = (\<lambda>src po. Inr src), sanitize = (\<lambda>html so. html),
       listenerRaises = (\<lambda>l html. Some (Thrown 2)) \<rparr>"

text \<open>
  The timers that are live in the event loop are exactly the ones whose handles the instance
  holds, each with the configured delay, and every handle held was handed out before.
\<close>

definition timersOwned :: "state \<Rightarrow> bool" where
  "timersOwned w =
     ((timer w = None \<longrightarrow> timeouts w = [])
      \<and> (\<forall>h. timer w = Some h \<longrightarrow> timeouts w = [(h, throttleMs w)] \<and> h < nextHandle w)
      \<and> (twTimer w = None \<longrightarrow> intervals w = [])
      \<and> (\<forall>h. twTimer w = Some h \<longrightarrow>
            intervals w = [(h, intervalMs (typewriter w))] \<and> h < nextHandle w))"

text \<open>
  What every state of a run satisfies: the timers are owned, no queued chunk is empty, and
  the step of the typewriter is positive.
\<close>

definition wellFormed :: "state \<Rightarrow> bool" where
  "wellFormed w = (timersOwned w \<and> [] \<notin> set (twQueue w) \<and> positive (step (typewriter w)))"

text \<open>The events that register a listener.\<close>

fun registersListener :: "event \<Rightarrow> bool" where
  "registersListener (On fn) = True"
| "registersListener (RenderTo el) = True"
| "registersListener ev = False"

text \<open>
  Every timer handle below \<open>n\<close> has been handed out and none of them is live.
\<close>

definition deadBelow :: "nat \<Rightarrow> state \<Rightarrow> bool" where
  "deadBelow n w =
     (n \<le> nextHandle w
      \<and> (\<forall>h < n. h \<notin> fst ` set (timeouts w) \<and> h \<notin> fst ` set (intervals w)))"

text \<open>The two spellings of a delimiter: one or two backslashes before the bracket.\<close>

definition isDelim :: "char \<Rightarrow> string \<Rightarrow> bool" where
  "isDelim d s = (s = [BSL, d] \<or> s = [BSL, BSL, d])"

text \<open>
  No delimiter \<^verbatim>\<open>\\{1,2}d\<close> starts at a position inside \<open>pre\<close>, in the text \<open>pre @ rest\<close>.
\<close>

fun noDelimWithin :: "char \<Rightarrow> string \<Rightarrow> string \<Rightarrow> bool" where
  "noDelimWithin d [] rest = True"
| "noDelimWithin d (x # xs) rest = (delimAt d (x # xs @ rest) = None \<and> noDelimWithin d xs rest)"

text \<open>
  No match of the pattern \<^verbatim>\<open>\\{1,2}o(.*?)\\{1,2}c\<close> starts at a position inside \<open>pre\<close>, in
  the text \<open>pre @ rest\<close>.
\<close>

fun noSpanWithin :: "char \<Rightarrow> char \<Rightarrow> bool \<Rightarrow> string \<Rightarrow> string \<Rightarrow> bool" where
  "noSpanWithin opn cls dotAll [] rest = True"
| "noSpanWithin opn cls dotAll (x # xs) rest =
     (spanAt opn cls dotAll (x # xs @ rest) = None \<and> noSpanWithin opn cls dotAll xs rest)"

text \<open>
  The values of the toggles \<^verbatim>\<open>code\<close> and \<^verbatim>\<open>math\<close> of \<^verbatim>\<open>_applyHardBreaks\<close> after one line,
  and after a list of lines.
\<close>

definition lineState :: "bool \<Rightarrow> bool \<Rightarrow> string \<Rightarrow> bool \<times> bool" where
  "lineState code math line =
     (let t = trim line in
      if isFenceLine t then (\<not> code, math)
      else if startsWith t ''$$'' \<and> \<not> code then (code, \<not> math)
      else (code, math))"

fun fenceState :: "bool \<Rightarrow> bool \<Rightarrow> string list \<Rightarrow> bool \<times> bool" where
  "fenceState code math [] = (code, math)"
| "fenceState code math (l # ls) =
     fenceState (fst (lineState code math l)) (snd (lineState code math l)) ls"

text \<open>
  What one round of the loop of \<^verbatim>\<open>_applyHardBreaks\<close> pushes for \<open>line\<close>, when \<open>nxt\<close> is the
  line after it (the empty string at the last line).
\<close>

definition lineOut :: "bool \<Rightarrow> bool \<Rightarrow> string \<Rightarrow> string \<Rightarrow> string list" where
  "lineOut code math line nxt =
     (let t = trim line in
      if isFenceLine t then [line]
      else if startsWith t ''$$'' \<and> \<not> code then [line]
      else if \<not> code \<and> \<not> math then
        (let nt = trim nxt;
             line' = (if t \<noteq> [] \<and> nt \<noteq> [] \<and> \<not> blockStart nt \<and> \<not> endsTwoSpace line
                      then line @ ''  '' else line)
         in if closingHtmlBlock t \<and> nt \<noteq> [] \<and> \<not> blockStart nt then [line', []] else [line'])
      else [line])"

section \<open>Invariants of a run\<close>

text \<open>A render pass changes nothing but the logs and \<^verbatim>\<open>prevHtml\<close>.\<close>

lemma notify_frame:
  "timer (snd (notify E s w)) = timer w" "twTimer (snd (notify E s w)) = twTimer w"
  "timeouts (snd (notify E s w)) = timeouts w" "intervals (snd (notify E s w)) = intervals w"
  "nextHandle (snd (notify E s w)) = nextHandle w" "twQueue (snd (notify E s w)) = twQueue w"
  "typewriter (snd (notify E s w)) = typewriter w" "buffer (snd (notify E s w)) = buffer w"
  "listener (snd (notify E s w)) = listener w" "throttleMs (snd (notify E s w)) = throttleMs w"
  "passes (snd (notify E s w)) = passes w" "mathSyntax (snd (notify E s w)) = mathSyntax w"
  "respectNewlines (snd (notify E s w)) = respectNewlines w"
  "extensions (snd (notify E s w)) = extensions w"
  "htmlExtensions (snd (notify E s w)) = htmlExtensions w"
  "allowHtml (snd (notify E s w)) = allowHtml w"
  "sanitizeOptions (snd (notify E s w)) = sanitizeOptions w"
  by (simp_all add: notify_def split: option.splits listener.splits)

text \<open>The state a pass leaves: the pass is logged, and the listener notified if the parse returned.\<close>

lemma snd_emit:
  "snd (emit E f w) =
     (case parseWithFallback E (emitSource f w) w of
        Inl err \<Rightarrow> w\<lparr>passes := passes w @ [emitSource f w]\<rparr>
      | Inr html \<Rightarrow> snd (notify E (sanitize E html (sanitizeOptions w))
                         (w\<lparr>passes := passes w @ [emitSource f w]\<rparr>)))"
  by (simp add: emit_def Let_def split: sum.splits prod.splits option.splits)

lemma fst_emit:
  "fst (emit E f w) =
     (case parseWithFallback E (emitSource f w) w of
        Inl err \<Rightarrow> Inl err
      | Inr html \<Rightarrow>
          (case fst (notify E (sanitize E html (sanitizeOptions w))
                       (w\<lparr>passes := passes w @ [emitSource f w]\<rparr>)) of
             Some err \<Rightarrow> Inl err
           | None \<Rightarrow> Inr (sanitize E html (sanitizeOptions w))))"
  by (simp add: emit_def Let_def split: sum.splits prod.splits option.splits)

lemma notify_result:
  "fst (notify E s w) = (case listener w of None \<Rightarrow> None | Some l \<Rightarrow> listenerRaises E l s)"
  "calls (snd (notify E s w)) = (case listener w of None \<Rightarrow> calls w | Some l \<Rightarrow> calls w @ [(l, s)])"
  by (simp_all add: notify_def split: option.splits listener.splits)

lemma snd_flush: "snd (flush E w) = snd (emit E Undefined w)"
  by (simp add: flush_def split: prod.splits sum.splits)


lemma emit_frame:
  "timer (snd (emit E f w)) = timer w" "twTimer (snd (emit E f w)) = twTimer w"
  "timeouts (snd (emit E f w)) = timeouts w" "intervals (snd (emit E f w)) = intervals w"
  "nextHandle (snd (emit E f w)) = nextHandle w" "twQueue (snd (emit E f w)) = twQueue w"
  "typewriter (snd (emit E f w)) = typewriter w" "buffer (snd (emit E f w)) = buffer w"
  "listener (snd (emit E f w)) = listener w" "throttleMs (snd (emit E f w)) = throttleMs w"
  "mathSyntax (snd (emit E f w)) = mathSyntax w"
  "respectNewlines (snd (emit E f w)) = respectNewlines w"
  "extensions (snd (emit E f w)) = extensions w"
  "htmlExtensions (snd (emit E f w)) = htmlExtensions w"
  "allowHtml (snd (emit E f w)) = allowHtml w"
  "sanitizeOptions (snd (emit E f w)) = sanitizeOptions w"
  by (simp_all add: snd_emit notify_frame split: sum.splits)

lemma emit_passes: "passes (snd (emit E f w)) = passes w @ [emitSource f w]"
  by (simp add: snd_emit notify_frame split: sum.splits)

lemma wellFormed_emit: "wellFormed (snd (emit E f w)) = wellFormed w"
  by (simp add: wellFormed_def timersOwned_def emit_frame)

lemma wellFormed_construct: "wellFormed (construct opts)"
proof -
  have "positive (Finite 1)" by (simp add: positive_def)
  then show ?thesis
    by (simp add: wellFormed_def timersOwned_def construct_def Let_def split: js_value.splits)
qed

lemma wellFormed_schedule: "wellFormed w \<Longrightarrow> wellFormed (schedule w)"
  by (auto simp: wellFormed_def timersOwned_def schedule_def less_Suc_eq
           split: option.splits)

lemma wellFormed_startTypewriter: "wellFormed w \<Longrightarrow> wellFormed (startTypewriter w)"
  by (auto simp: wellFormed_def timersOwned_def startTypewriter_def less_Suc_eq
           split: option.splits)

lemma wellFormed_enqueue:
  "wellFormed w \<Longrightarrow> s \<noteq> [] \<Longrightarrow> wellFormed (w\<lparr>twQueue := twQueue w @ [s]\<rparr>)"
  by (auto simp: wellFormed_def timersOwned_def)

lemma wellFormed_buffer: "wellFormed w \<Longrightarrow> wellFormed (w\<lparr>buffer := b\<rparr>)"
  by (simp add: wellFormed_def timersOwned_def)

lemma wellFormed_stopTicker:
  "wellFormed w \<Longrightarrow> wellFormed ((clearInterval (twTimer w) w)\<lparr>twTimer := None\<rparr>)"
  by (auto simp: wellFormed_def timersOwned_def clearInterval_def split: option.splits)

lemma wellFormed_stopTimer:
  "wellFormed w \<Longrightarrow> wellFormed ((clearTimeout (timer w) w)\<lparr>timer := None\<rparr>)"
  by (auto simp: wellFormed_def timersOwned_def clearTimeout_def split: option.splits)

lemma wellFormed_emptyQueue: "wellFormed w \<Longrightarrow> wellFormed (w\<lparr>twQueue := []\<rparr>)"
  by (simp add: wellFormed_def timersOwned_def)

lemma wellFormed_write: "wellFormed w \<Longrightarrow> wellFormed (write v w)"
  by (cases v)
     (simp_all add: write_def wellFormed_startTypewriter wellFormed_enqueue
        wellFormed_schedule wellFormed_buffer)

lemma stopTicker_buffer_commute:
  "(clearInterval (twTimer w) (w\<lparr>twQueue := []\<rparr>))\<lparr>twTimer := None, buffer := b\<rparr>
     = (clearInterval (twTimer (w\<lparr>twQueue := [], buffer := b\<rparr>))
          (w\<lparr>twQueue := [], buffer := b\<rparr>))\<lparr>twTimer := None\<rparr>"
  by (simp add: clearInterval_def)

lemma wellFormed_update: "wellFormed w \<Longrightarrow> wellFormed (update v w)"
proof (cases v)
  case (Str newStr)
  assume wf: "wellFormed w"
  have d: "wellFormed (w\<lparr>twQueue := twQueue w @ [sliceFrom newStr n]\<rparr>)"
    if "sliceFrom newStr n \<noteq> []" for n
    using wf that by (rule wellFormed_enqueue)
  have e: "wellFormed (schedule ((clearInterval (twTimer w) (w\<lparr>twQueue := []\<rparr>))
                                   \<lparr>twTimer := None, buffer := newStr\<rparr>))"
    unfolding stopTicker_buffer_commute
    by (intro wellFormed_schedule wellFormed_stopTicker wellFormed_buffer
          wellFormed_emptyQueue wf)
  have f: "wellFormed (schedule (w\<lparr>twQueue := [], buffer := newStr\<rparr>))"
    by (intro wellFormed_schedule wellFormed_buffer wellFormed_emptyQueue wf)
  have g: "wellFormed (schedule (w\<lparr>buffer := newStr\<rparr>))"
    by (intro wellFormed_schedule wellFormed_buffer wf)
  have h: "wellFormed (startTypewriter (w\<lparr>twQueue := twQueue w @ [newStr]\<rparr>))"
    if "newStr \<noteq> []"
    using wf that by (intro wellFormed_startTypewriter wellFormed_enqueue)
  show ?thesis
    unfolding Str update_def Let_def js_value.case
    using wf d e f g h by (auto intro: wellFormed_startTypewriter)
qed (simp_all add: update_def)

lemma wellFormed_clear: "wellFormed w \<Longrightarrow> wellFormed (snd (clear E w))"
proof -
  assume wf: "wellFormed w"
  let ?w1 = "w\<lparr>buffer := [], twQueue := []\<rparr>"
  have w1: "wellFormed ?w1"
    using wf by (simp add: wellFormed_def timersOwned_def)
  let ?w2 = "if twTimer ?w1 \<noteq> None then (clearInterval (twTimer ?w1) ?w1)\<lparr>twTimer := None\<rparr> else ?w1"
  have w2: "wellFormed ?w2"
    using w1 wellFormed_stopTicker [OF w1] by simp
  have "snd (clear E w) = snd (emit E (Str []) ?w2)"
    unfolding clear_def Let_def by (simp split: prod.splits sum.splits)
  with w2 show ?thesis
    by (simp only: wellFormed_emit)
qed

lemma wellFormed_destroy: "wellFormed w \<Longrightarrow> wellFormed (destroy w)"
  by (auto simp: destroy_def Let_def wellFormed_def timersOwned_def clearTimeout_def
        clearInterval_def split: option.splits)

lemma wellFormed_timeoutCallback:
  assumes "wellFormed w" and "timer w = Some h"
  shows "wellFormed (snd (timeoutCallback E (w\<lparr>timeouts := filter (\<lambda>(k, d). k \<noteq> h) (timeouts w)\<rparr>)))"
proof -
  let ?v = "w\<lparr>timeouts := filter (\<lambda>(k, d). k \<noteq> h) (timeouts w), timer := None\<rparr>"
  have "wellFormed ?v"
    using assms by (auto simp: wellFormed_def timersOwned_def split: option.splits)
  moreover have "snd (timeoutCallback E (w\<lparr>timeouts := filter (\<lambda>(k, d). k \<noteq> h) (timeouts w)\<rparr>))
      = snd (emit E Undefined ?v)"
    unfolding timeoutCallback_def by (simp split: prod.splits sum.splits)
  ultimately show ?thesis
    by (simp only: wellFormed_emit)
qed



lemma wellFormed_intervalCallback: "wellFormed w \<Longrightarrow> wellFormed (intervalCallback w)"
proof (cases "twQueue w")
  case Nil
  assume "wellFormed w"
  from wellFormed_stopTicker [OF this] Nil show ?thesis
    by (simp add: intervalCallback_def)
next
  case (Cons current q)
  assume wf: "wellFormed w"
  let ?rest = "sliceFrom current (step (typewriter w))"
  let ?w1 = "if length ?rest > 0 then w\<lparr>twQueue := ?rest # q\<rparr> else w\<lparr>twQueue := q\<rparr>"
  have "wellFormed ?w1"
    using wf Cons by (auto simp: wellFormed_def timersOwned_def)
  then have "wellFormed (schedule (?w1\<lparr>buffer := buffer ?w1 @ sliceTo current (step (typewriter w))\<rparr>))"
    by (intro wellFormed_schedule wellFormed_buffer)
  with Cons show ?thesis
    by (simp add: intervalCallback_def Let_def)
qed

lemma wellFormed_perform: "wellFormed w \<Longrightarrow> wellFormed (snd (perform E ev w))"
proof (cases ev)
  case (TimeoutFires h)
  assume wf: "wellFormed w"
  show ?thesis
  proof (cases "h \<in> fst ` set (timeouts w)")
    case True
    with wf have "timer w = Some h"
      by (auto simp: wellFormed_def timersOwned_def split: option.splits)
    from wellFormed_timeoutCallback [OF wf this] True TimeoutFires show ?thesis by simp
  next
    case False
    with wf TimeoutFires show ?thesis by simp
  qed
next
  case Flush
  assume "wellFormed w"
  moreover have "snd (flush E w) = snd (emit E Undefined w)"
    by (simp add: flush_def split: prod.splits sum.splits)
  ultimately show ?thesis
    using Flush by (simp add: wellFormed_emit)
qed (simp_all add: wellFormed_write wellFormed_update wellFormed_clear wellFormed_destroy
       wellFormed_intervalCallback, simp_all add: wellFormed_def timersOwned_def on_def
       renderTo_def registerExtensions_def registerHtmlExtensions_def setSanitizeOptions_def
       split: option.splits)

lemma wellFormed_run: "wellFormed w \<Longrightarrow> wellFormed (run E evs w)"
  by (induction evs arbitrary: w) (simp_all add: wellFormed_perform)

lemma wellFormed_reachable: "wellFormed (run E evs (construct opts))"
  by (rule wellFormed_run [OF wellFormed_construct])

section \<open>Invalid input to \<^verbatim>\<open>write\<close> and \<^verbatim>\<open>update\<close>\<close>

text \<open>
  C8, as stated: for every non-string or empty-string argument, both \<^verbatim>\<open>write\<close> and \<^verbatim>\<open>update\<close>
  are silent no-ops. This fails for \<^verbatim>\<open>update('')\<close>: \<^verbatim>\<open>update\<close> tests only the type of its
  argument, so the empty string replaces the buffer and a render is scheduled. Below, after
  \<^verbatim>\<open>write('abc')\<close> the buffer is \<^verbatim>\<open>'abc'\<close> and \<^verbatim>\<open>update('')\<close> empties it; on a fresh instance
  \<^verbatim>\<open>update('')\<close> starts the throttle timer.
\<close>

theorem update_empty_string_counterexample:
  "buffer (write (Str ''abc'') (construct defaultOptions)) = ''abc''
   \<and> buffer (update (Str []) (write (Str ''abc'') (construct defaultOptions))) = []
   \<and> timeouts (construct defaultOptions) = []
   \<and> timeouts (update (Str []) (construct defaultOptions)) = [(1, Finite 16)]"
  by (simp add: construct_def defaultOptions_def write_def update_def schedule_def)

text \<open>
  C8, amended: for every non-string argument, \<^verbatim>\<open>write\<close> and \<^verbatim>\<open>update\<close> are silent no-ops, and
  so is \<^verbatim>\<open>write\<close> for the empty string: they return normally and leave the whole state
  (buffer, pending queue, timers) unchanged. \<^verbatim>\<open>update('')\<close> is an ordinary replacement: it
  sets the buffer to the empty string and requests a scheduled render (a throttle timer is
  pending afterwards, started by this call when none was pending); in typewriter mode it also
  empties the pending queue and stops the ticker.
\<close>

theorem invalid_input_ignored:
  "(\<not> isString v \<or> v = Str [] \<longrightarrow> write v w = w)
   \<and> (\<not> isString v \<longrightarrow> update v w = w)
   \<and> buffer (update (Str []) w) = []
   \<and> timer (update (Str []) w) \<noteq> None
   \<and> (timer w = None \<longrightarrow>
        timeouts (update (Str []) w) = timeouts w @ [(nextHandle w, throttleMs w)])
   \<and> (enabled (typewriter w) \<longrightarrow>
        twQueue (update (Str []) w) = [] \<and> twTimer (update (Str []) w) = None
        \<and> (\<forall>h. twTimer w = Some h \<longrightarrow> h \<notin> fst ` set (intervals (update (Str []) w))))"
proof -
  have "prefixLoop (buffer w) [] 0 0 = 0"
    by (simp add: prefixLoop.simps)
  then show ?thesis
    by (cases v)
       (auto simp: isString_def write_def update_def schedule_def clearInterval_def Let_def)
qed

theorem invalid_input_ignored_witness:
  "\<not> isString (Num (Finite 3))
   \<and> write (Num (Finite 3)) (write (Str ''abc'') (construct typewriterOnOptions))
       = write (Str ''abc'') (construct typewriterOnOptions)
   \<and> update (Num (Finite 3)) (write (Str ''abc'') (construct typewriterOnOptions))
       = write (Str ''abc'') (construct typewriterOnOptions)
   \<and> write (Str []) (write (Str ''abc'') (construct typewriterOnOptions))
       = write (Str ''abc'') (construct typewriterOnOptions)
   \<and> enabled (typewriter (write (Str ''abc'') (construct typewriterOnOptions)))
   \<and> twTimer (write (Str ''abc'') (construct typewriterOnOptions)) = Some 1
   \<and> timer (write (Str ''abc'') (construct typewriterOnOptions)) = None
   \<and> twQueue (update (Str []) (write (Str ''abc'') (construct typewriterOnOptions))) = []
   \<and> twTimer (update (Str []) (write (Str ''abc'') (construct typewriterOnOptions))) = None
   \<and> 1 \<notin> fst ` set (intervals (update (Str []) (write (Str ''abc'') (construct typewriterOnOptions))))
   \<and> timeouts (update (Str []) (write (Str ''abc'') (construct typewriterOnOptions))) = [(2, Finite 16)]"
proof -
  let ?w = "write (Str ''abc'') (construct typewriterOnOptions)"
  have st: "enabled (typewriter ?w)" "twTimer ?w = Some 1" "timer ?w = None"
    "timeouts ?w = []" "nextHandle ?w = 2" "throttleMs ?w = Finite 16"
    by (simp_all add: construct_def typewriterOnOptions_def defaultOptions_def write_def
          startTypewriter_def)
  have ns: "\<not> isString (Num (Finite 3))"
    by (simp add: isString_def)
  from invalid_input_ignored [of "Num (Finite 3)" ?w] invalid_input_ignored [of "Str []" ?w] ns st
  show ?thesis by simp
qed

section \<open>\<^verbatim>\<open>update\<close> in typewriter mode\<close>

text \<open>The loop of \<^verbatim>\<open>update\<close> computes the length of the longest common prefix.\<close>

lemma prefixLoop_from:
  "mx = min (length old) (length newStr) \<Longrightarrow> i \<le> mx \<Longrightarrow>
   prefixLoop old newStr mx i = i + length (longest_common_prefix (drop i old) (drop i newStr))"
proof (induction old newStr mx i rule: prefixLoop.induct)
  case (1 old newStr mx i)
  show ?case
  proof (cases "i < mx \<and> old ! i = newStr ! i")
    case True
    with "1.prems" have lt: "i < length old" "i < length newStr" by simp_all
    then have d: "drop i old = old ! i # drop (Suc i) old"
      "drop i newStr = newStr ! i # drop (Suc i) newStr"
      by (simp_all add: Cons_nth_drop_Suc)
    from True have "Suc i \<le> mx" by simp
    from "1.IH" [OF True "1.prems"(1) this]
    have "prefixLoop old newStr mx (Suc i)
            = Suc i + length (longest_common_prefix (drop (Suc i) old) (drop (Suc i) newStr))" .
    moreover from True have "prefixLoop old newStr mx i = prefixLoop old newStr mx (Suc i)"
      by (subst prefixLoop.simps) simp
    ultimately show ?thesis
      using True d by simp
  next
    case False
    then have stop: "prefixLoop old newStr mx i = i"
      by (subst prefixLoop.simps) auto
    have "longest_common_prefix (drop i old) (drop i newStr) = []"
    proof (cases "i < mx")
      case True
      with "1.prems" have lt: "i < length old" "i < length newStr" by simp_all
      then have d: "drop i old = old ! i # drop (Suc i) old"
        "drop i newStr = newStr ! i # drop (Suc i) newStr"
        by (simp_all add: Cons_nth_drop_Suc)
      from True False have "old ! i \<noteq> newStr ! i" by simp
      with d show ?thesis by simp
    next
      case False
      with "1.prems" have "length old \<le> i \<or> length newStr \<le> i" by arith
      then have "drop i old = [] \<or> drop i newStr = []" by simp
      then show ?thesis
        by (cases "drop i old") auto
    qed
    with stop show ?thesis by simp
  qed
qed

lemma prefixLoop_lcp:
  "prefixLoop old newStr (min (length old) (length newStr)) 0
     = length (longest_common_prefix old newStr)"
  using prefixLoop_from [of "min (length old) (length newStr)" old newStr 0] by simp

lemma sliceFrom_nat: "sliceFrom s (Finite (of_nat i)) = drop i s"
  by (simp add: sliceFrom_def sliceIndex_def truncated_def min_def)

text \<open>
  C3, as stated: in typewriter mode, when the new text neither starts the reveal nor extends
  the buffer, \<^verbatim>\<open>update\<close> empties the queue, cancels the ticker, sets the buffer to the new
  text and schedules an immediate render. The render is requested through \<^verbatim>\<open>_schedule\<close>,
  as every other render: \<^verbatim>\<open>update\<close> runs no render pass, and the pass waits for the throttle
  timer. Below, \<^verbatim>\<open>'he'\<close> has been revealed and rendered and no timer is pending; after
  \<^verbatim>\<open>update('hx')\<close> the log of passes is as before and a timer with the throttle interval of
  16 ms is pending; a further \<^verbatim>\<open>update('hy')\<close> starts no timer and still runs no pass.
\<close>

theorem update_render_deferred_counterexample:
  "passes (run plainCollaborators
             [Update (Str ''he''), IntervalFires 1, IntervalFires 1, TimeoutFires 2]
             (construct typewriterOnOptions)) = [''he'']
   \<and> buffer (run plainCollaborators
             [Update (Str ''he''), IntervalFires 1, IntervalFires 1, TimeoutFires 2]
             (construct typewriterOnOptions)) = ''he''
   \<and> timeouts (run plainCollaborators
             [Update (Str ''he''), IntervalFires 1, IntervalFires 1, TimeoutFires 2]
             (construct typewriterOnOptions)) = []
   \<and> buffer (run plainCollaborators
             [Update (Str ''he''), IntervalFires 1, IntervalFires 1, TimeoutFires 2,
              Update (Str ''hx'')]
             (construct typewriterOnOptions)) = ''hx''
   \<and> passes (run plainCollaborators
             [Update (Str ''he''), IntervalFires 1, IntervalFires 1, TimeoutFires 2,
              Update (Str ''hx'')]
             (construct typewriterOnOptions)) = [''he'']
   \<and> timeouts (run plainCollaborators
             [Update (Str ''he''), IntervalFires 1, IntervalFires 1, TimeoutFires 2,
              Update (Str ''hx'')]
             (construct typewriterOnOptions)) = [(3, Finite 16)]
   \<and> passes (run plainCollaborators
             [Update (Str ''he''), IntervalFires 1, IntervalFires 1, TimeoutFires 2,
              Update (Str ''hx''), Update (Str ''hy'')]
             (construct typewriterOnOptions)) = [''he'']
   \<and> timeouts (run plainCollaborators
             [Update (Str ''he''), IntervalFires 1, IntervalFires 1, TimeoutFires 2,
              Update (Str ''hx''), Update (Str ''hy'')]
             (construct typewriterOnOptions)) = [(3, Finite 16)]"
  by code_simp

text \<open>
  C3, amended. In typewriter mode, with \<open>i\<close> the length of the longest common prefix of the
  old buffer and the new text: when the old buffer is empty and the new text is not,
  \<^verbatim>\<open>update\<close> queues the whole new text; when \<open>i\<close> is the length of the old buffer and the new
  text is strictly longer, it queues exactly the suffix beyond \<open>i\<close>, whose length is the new
  length minus the old one, and leaves the buffer as it is (in both cases a ticker is running
  afterwards and the throttle timer is untouched); otherwise it empties the queue, cancels
  the ticker, sets the buffer to the new text and requests a throttled render: it starts a
  one-shot timer with the throttle interval when none is pending and leaves a pending one as
  it is. In no case does \<^verbatim>\<open>update\<close> itself run a render pass or invoke the listener.
\<close>

theorem update_typewriter_cases:
  assumes "enabled (typewriter w)"
  shows "let old = buffer w;
             i = length (longest_common_prefix old newStr);
             w' = update (Str newStr) w
         in (old = [] \<and> newStr \<noteq> [] \<longrightarrow>
               twQueue w' = twQueue w @ [newStr] \<and> buffer w' = old \<and> twTimer w' \<noteq> None
               \<and> timer w' = timer w \<and> timeouts w' = timeouts w)
          \<and> (i = length old \<and> length newStr > length old \<longrightarrow>
               twQueue w' = twQueue w @ [drop i newStr]
               \<and> length (drop i newStr) = length newStr - length old
               \<and> buffer w' = old \<and> twTimer w' \<noteq> None
               \<and> timer w' = timer w \<and> timeouts w' = timeouts w)
          \<and> (\<not> (old = [] \<and> newStr \<noteq> []) \<and> \<not> (i = length old \<and> length newStr > length old) \<longrightarrow>
               twQueue w' = [] \<and> twTimer w' = None
               \<and> (\<forall>h. twTimer w = Some h \<longrightarrow> h \<notin> fst ` set (intervals w'))
               \<and> buffer w' = newStr \<and> timer w' \<noteq> None
               \<and> (timer w = None \<longrightarrow>
                    timer w' = Some (nextHandle w)
                    \<and> timeouts w' = timeouts w @ [(nextHandle w, throttleMs w)])
               \<and> (timer w \<noteq> None \<longrightarrow> timer w' = timer w \<and> timeouts w' = timeouts w))
          \<and> passes w' = passes w \<and> calls w' = calls w \<and> domWrites w' = domWrites w"
proof -
  define L where "L = length (longest_common_prefix (buffer w) newStr)"
  have pl: "prefixLoop (buffer w) newStr (min (length (buffer w)) (length newStr)) 0 = L"
    unfolding L_def by (rule prefixLoop_lcp)
  have upd: "update (Str newStr) w =
      (if length (buffer w) = 0 \<and> length newStr > 0
       then startTypewriter (w\<lparr>twQueue := twQueue w @ [newStr]\<rparr>)
       else if L = length (buffer w) \<and> length newStr > length (buffer w)
            then (if drop L newStr \<noteq> []
                  then startTypewriter (w\<lparr>twQueue := twQueue w @ [drop L newStr]\<rparr>) else w)
            else schedule ((if twTimer w \<noteq> None
                            then (clearInterval (twTimer w) (w\<lparr>twQueue := []\<rparr>))\<lparr>twTimer := None\<rparr>
                            else w\<lparr>twQueue := []\<rparr>)\<lparr>buffer := newStr\<rparr>))"
    unfolding update_def Let_def pl sliceFrom_nat js_value.case
    using assms by simp
  show ?thesis
    unfolding Let_def upd L_def [symmetric]
    by (auto simp: startTypewriter_def schedule_def clearInterval_def)
qed

theorem update_typewriter_cases_witness:
  "enabled (typewriter ((construct typewriterOnOptions)\<lparr>buffer := ''he''\<rparr>))
   \<and> twQueue (update (Str ''hello'') ((construct typewriterOnOptions)\<lparr>buffer := ''he''\<rparr>)) = [''llo'']
   \<and> buffer (update (Str ''hello'') ((construct typewriterOnOptions)\<lparr>buffer := ''he''\<rparr>)) = ''he''
   \<and> twTimer (update (Str ''hello'') ((construct typewriterOnOptions)\<lparr>buffer := ''he''\<rparr>)) \<noteq> None
   \<and> twQueue (update (Str ''hi'') (construct typewriterOnOptions)) = [''hi'']
   \<and> buffer (update (Str ''hi'') (construct typewriterOnOptions)) = []
   \<and> twQueue (update (Str ''hx'') (update (Str ''hello'') ((construct typewriterOnOptions)\<lparr>buffer := ''he''\<rparr>))) = []
   \<and> twTimer (update (Str ''hx'') (update (Str ''hello'') ((construct typewriterOnOptions)\<lparr>buffer := ''he''\<rparr>))) = None
   \<and> buffer (update (Str ''hx'') (update (Str ''hello'') ((construct typewriterOnOptions)\<lparr>buffer := ''he''\<rparr>))) = ''hx''
   \<and> timeouts (update (Str ''hx'') (update (Str ''hello'') ((construct typewriterOnOptions)\<lparr>buffer := ''he''\<rparr>))) = [(2, Finite 16)]
   \<and> passes (update (Str ''hx'') (update (Str ''hello'') ((construct typewriterOnOptions)\<lparr>buffer := ''he''\<rparr>))) = []
   \<and> timeouts (update (Str ''hy'') (update (Str ''hx'') (update (Str ''hello'') ((construct typewriterOnOptions)\<lparr>buffer := ''he''\<rparr>)))) = [(2, Finite 16)]
   \<and> buffer (update (Str ''hy'') (update (Str ''hx'') (update (Str ''hello'') ((construct typewriterOnOptions)\<lparr>buffer := ''he''\<rparr>)))) = ''hy''"
proof -
  define init where "init = construct typewriterOnOptions"
  define w where "w = init\<lparr>buffer := ''he''\<rparr>"
  define v where "v = update (Str ''hello'') w"
  define u where "u = update (Str ''hx'') v"
  have i: "enabled (typewriter init)" "twQueue init = []" "buffer init = []"
    by (simp_all add: init_def construct_def typewriterOnOptions_def defaultOptions_def)
  have en: "enabled (typewriter w)" and q: "twQueue w = []" and b: "buffer w = ''he''"
    and o: "twTimer w = None" "nextHandle w = 1" "timer w = None" "timeouts w = []"
      "throttleMs w = Finite 16" "passes w = []"
    by (simp_all add: w_def init_def construct_def typewriterOnOptions_def defaultOptions_def)
  from update_typewriter_cases [OF en, of "''hello''"] q b o
  have a: "twQueue v = [''llo'']" "buffer v = ''he''" "twTimer v \<noteq> None" "timer v = None"
    "timeouts v = []" "passes v = []"
    by (simp_all add: Let_def v_def)
  from update_typewriter_cases [OF i(1), of "''hi''"] i(2,3)
  have c: "twQueue (update (Str ''hi'') init) = [''hi'']" "buffer (update (Str ''hi'') init) = []"
    by (simp_all add: Let_def)
  have pl: "prefixLoop ''he'' ''hello'' (Suc (Suc 0)) 0 = Suc (Suc 0)"
    using prefixLoop_lcp [of "''he''" "''hello''"] by simp
  have sf: "sliceFrom ''hello'' (Finite 2) = ''llo''"
    using sliceFrom_nat [of "''hello''" 2] by simp
  have vs: "enabled (typewriter v)" "nextHandle v = 2" "throttleMs v = Finite 16"
    using en b o
    by (simp_all add: v_def update_def Let_def pl sf startTypewriter_def)
  from update_typewriter_cases [OF vs(1), of "''hx''"] a(2,4,5,6) vs(2,3)
  have d: "twQueue u = []" "twTimer u = None" "buffer u = ''hx''" "timeouts u = [(2, Finite 16)]"
    "passes u = []" "timer u = Some 2"
    by (simp_all add: Let_def u_def)
  have us: "enabled (typewriter u)"
    using vs(1) by (simp add: u_def update_def Let_def schedule_def clearInterval_def
        startTypewriter_def split: if_splits)
  from update_typewriter_cases [OF us, of "''hy''"] d
  have e: "timeouts (update (Str ''hy'') u) = [(2, Finite 16)]" "buffer (update (Str ''hy'') u) = ''hy''"
    by (simp_all add: Let_def)
  from en a(1-3) c d(1-5) e show ?thesis
    unfolding u_def v_def w_def init_def by (simp only: simp_thms)
qed

section \<open>The typewriter ticker\<close>









section \<open>The render pass\<close>



section \<open>The listener\<close>

text \<open>
  C1, as stated: the listener is never invoked twice in a row with an identical string; a
  render pass invokes it only if the sanitized result differs from the last emitted one,
  and a second \<^verbatim>\<open>flush\<close> with no write in between invokes it at most once. \<^verbatim>\<open>_emit\<close>
  compares nothing: it calls the listener in every pass. Here one write is followed by two
  flushes, and the listener is invoked twice with the same string.
\<close>

theorem listener_invoked_twice_counterexample:
  "calls (run plainCollaborators [Write (Str ''hi''), Flush, Flush] (construct listeningOptions))
     = [(Callback 0, ''hi''), (Callback 0, ''hi'')]"
  by code_simp

text \<open>
  C1, amended. A render pass whose parse returns, at the first call or at the fallback,
  invokes the registered listener exactly once with the sanitized result, whether or not
  that string equals the one of the pass before; with no listener registered, or when both
  calls of the parser throw, nothing is invoked. The invocation is not guarded: when the
  listener throws, its exception ends the pass, after the invocation. So two \<^verbatim>\<open>flush\<close>
  calls in a row both invoke the listener, with the same string. \<^verbatim>\<open>clear\<close> invokes it once
  with the sanitized result of parsing the empty text. The one comparison with an earlier
  result is in the listener that \<^verbatim>\<open>renderTo\<close> installs: it is invoked in every pass too, but
  assigns \<^verbatim>\<open>el.innerHTML\<close> (and updates \<^verbatim>\<open>prevHtml\<close>) only when the new text differs from
  \<^verbatim>\<open>prevHtml\<close>.
\<close>

theorem listener_invoked_every_pass:
  "(parseWithFallback E (emitSource f w) w = Inr html \<and> listener w = Some l \<longrightarrow>
      calls (snd (emit E f w)) = calls w @ [(l, sanitize E html (sanitizeOptions w))]
      \<and> fst (emit E f w)
           = (case listenerRaises E l (sanitize E html (sanitizeOptions w)) of
                None \<Rightarrow> Inr (sanitize E html (sanitizeOptions w))
              | Some e \<Rightarrow> Inl e))
   \<and> (listener w = None \<or> parseWithFallback E (emitSource f w) w = Inl err \<longrightarrow>
        calls (snd (emit E f w)) = calls w)
   \<and> (parseWithFallback E (emitSource Undefined w) w = Inr html \<and> listener w = Some l \<longrightarrow>
        calls (snd (flush E w)) = calls w @ [(l, sanitize E html (sanitizeOptions w))]
        \<and> calls (snd (flush E (snd (flush E w))))
             = calls w @ [(l, sanitize E html (sanitizeOptions w)),
                          (l, sanitize E html (sanitizeOptions w))])
   \<and> ((micromark E [] (fullOptions w) = Inr html
         \<or> (micromark E [] (fullOptions w) = Inl err
             \<and> micromark E [] (minimalOptions w) = Inr html))
        \<and> listener w = Some l \<longrightarrow>
        calls (snd (clear E w)) = calls w @ [(l, sanitize E html (sanitizeOptions w))])
   \<and> (parseWithFallback E (emitSource f w) w = Inr html \<and> listener w = Some (DomWriter el) \<longrightarrow>
        domWrites (snd (emit E f w))
          = (if sanitize E html (sanitizeOptions w) = prevHtml w then domWrites w
             else domWrites w @ [(el, sanitize E html (sanitizeOptions w))])
        \<and> prevHtml (snd (emit E f w)) = sanitize E html (sanitizeOptions w))"
proof -
  have A: "calls (snd (emit E f w)) = calls w @ [(l, sanitize E html (sanitizeOptions w))]
      \<and> fst (emit E f w)
           = (case listenerRaises E l (sanitize E html (sanitizeOptions w)) of
                None \<Rightarrow> Inr (sanitize E html (sanitizeOptions w))
              | Some e \<Rightarrow> Inl e)"
    if "parseWithFallback E (emitSource f w) w = Inr html" "listener w = Some l" for f w
    using that by (simp add: snd_emit fst_emit notify_result split: option.splits)
  have B: "calls (snd (emit E f w)) = calls w"
    if "listener w = None \<or> parseWithFallback E (emitSource f w) w = Inl err"
    using that by (auto simp: snd_emit notify_result split: sum.splits)
  have same: "parseWithFallback E (emitSource Undefined (snd (emit E Undefined w)))
                (snd (emit E Undefined w))
              = parseWithFallback E (emitSource Undefined w) w"
    by (simp add: parseWithFallback_def emitSource_def fullOptions_def minimalOptions_def
          emit_frame split: sum.splits)
  have C: "calls (snd (flush E w)) = calls w @ [(l, sanitize E html (sanitizeOptions w))]
        \<and> calls (snd (flush E (snd (flush E w))))
             = calls w @ [(l, sanitize E html (sanitizeOptions w)),
                          (l, sanitize E html (sanitizeOptions w))]"
    if p: "parseWithFallback E (emitSource Undefined w) w = Inr html" and l: "listener w = Some l"
  proof -
    let ?v = "snd (emit E Undefined w)"
    from A [OF p l] have c1: "calls ?v = calls w @ [(l, sanitize E html (sanitizeOptions w))]"
      by simp
    have "parseWithFallback E (emitSource Undefined ?v) ?v = Inr html" "listener ?v = Some l"
      using same p l by (simp_all add: emit_frame)
    from A [OF this] c1 show ?thesis
      by (simp add: snd_flush emit_frame)
  qed
  have D: "calls (snd (clear E w)) = calls w @ [(l, sanitize E html (sanitizeOptions w))]"
    if p: "micromark E [] (fullOptions w) = Inr html
           \<or> (micromark E [] (fullOptions w) = Inl err
               \<and> micromark E [] (minimalOptions w) = Inr html)"
      and l: "listener w = Some l"
  proof -
    let ?w1 = "w\<lparr>buffer := [], twQueue := []\<rparr>"
    let ?w2 = "if twTimer ?w1 \<noteq> None then (clearInterval (twTimer ?w1) ?w1)\<lparr>twTimer := None\<rparr> else ?w1"
    have w2: "buffer ?w2 = []" "fullOptions ?w2 = fullOptions w"
      "minimalOptions ?w2 = minimalOptions w" "sanitizeOptions ?w2 = sanitizeOptions w"
      "listener ?w2 = listener w" "calls ?w2 = calls w"
      by (simp_all add: fullOptions_def minimalOptions_def clearInterval_def)
    have sn: "snd (clear E w) = snd (emit E (Str []) ?w2)"
      unfolding clear_def Let_def by (simp split: prod.splits sum.splits)
    have es: "emitSource (Str []) ?w2 = []"
      by (simp add: emitSource_def)
    from p have "parseWithFallback E (emitSource (Str []) ?w2) ?w2 = Inr html"
      unfolding es parseWithFallback_def w2 by auto
    from A [OF this] l w2 sn show ?thesis
      by simp
  qed
  have F: "domWrites (snd (emit E f w))
          = (if sanitize E html (sanitizeOptions w) = prevHtml w then domWrites w
             else domWrites w @ [(el, sanitize E html (sanitizeOptions w))])
        \<and> prevHtml (snd (emit E f w)) = sanitize E html (sanitizeOptions w)"
    if "parseWithFallback E (emitSource f w) w = Inr html" "listener w = Some (DomWriter el)"
    using that by (simp add: snd_emit notify_def)
  from A B C D F show ?thesis by blast
qed

theorem listener_invoked_every_pass_witness:
  "listener (write (Str ''hi'') (construct listeningOptions)) = Some (Callback 0)
   \<and> parseWithFallback plainCollaborators
        (emitSource Undefined (write (Str ''hi'') (construct listeningOptions)))
        (write (Str ''hi'') (construct listeningOptions)) = Inr ''hi''
   \<and> calls (write (Str ''hi'') (construct listeningOptions)) = []
   \<and> calls (snd (flush plainCollaborators (write (Str ''hi'') (construct listeningOptions))))
        = [(Callback 0, ''hi'')]
   \<and> calls (snd (flush plainCollaborators
        (snd (flush plainCollaborators (write (Str ''hi'') (construct listeningOptions))))))
        = [(Callback 0, ''hi''), (Callback 0, ''hi'')]
   \<and> calls (snd (clear plainCollaborators (write (Str ''hi'') (construct listeningOptions))))
        = [(Callback 0, [])]
   \<and> fst (emit throwingListenerCollaborators Undefined
        (write (Str ''hi'') (construct listeningOptions))) = Inl (Thrown 2)
   \<and> calls (snd (emit throwingListenerCollaborators Undefined
        (write (Str ''hi'') (construct listeningOptions)))) = [(Callback 0, ''hi'')]
   \<and> calls (snd (emit throwingCollaborators Undefined
        (write (Str ''hi'') (construct listeningOptions)))) = []
   \<and> domWrites (snd (emit plainCollaborators Undefined
        (renderTo (Some 5) (write (Str ''hi'') (construct listeningOptions))))) = [(5, ''hi'')]
   \<and> domWrites (snd (emit plainCollaborators Undefined
        (snd (emit plainCollaborators Undefined
        (renderTo (Some 5) (write (Str ''hi'') (construct listeningOptions))))))) = [(5, ''hi'')]
   \<and> calls (snd (emit plainCollaborators Undefined
        (snd (emit plainCollaborators Undefined
        (renderTo (Some 5) (write (Str ''hi'') (construct listeningOptions)))))))
        = [(DomWriter 5, ''hi''), (DomWriter 5, ''hi'')]"
proof -
  define E where "E = plainCollaborators"
  define T where "T = throwingListenerCollaborators"
  define P where "P = throwingCollaborators"
  define w where "w = write (Str ''hi'') (construct listeningOptions)"
  define d where "d = renderTo (Some 5) w"
  define d' where "d' = snd (emit E Undefined d)"
  have l: "listener w = Some (Callback 0)" and c: "calls w = []"
    by (simp_all add: w_def write_def schedule_def construct_def listeningOptions_def
          defaultOptions_def)
  have src: "emitSource Undefined v = ''hi''"
    if "buffer v = ''hi''" "mathSyntax v = \<lparr>brackets = True, dollars = False\<rparr>"
      "\<not> respectNewlines v" for v
    using that
    by (simp add: emitSource_def preprocess_def Let_def replaceBlockMath_def
          replaceInlineMath_def spanAt_def delimAt_def)
  have wf: "buffer w = ''hi''" "mathSyntax w = \<lparr>brackets = True, dollars = False\<rparr>"
    "\<not> respectNewlines w"
    by (simp_all add: w_def write_def schedule_def construct_def listeningOptions_def
          defaultOptions_def)
  have E: "micromark E s po = Inr s" "sanitize E h so = h" "listenerRaises E k h = None"
    and T: "micromark T s po = Inr s" "sanitize T h so = h" "listenerRaises T k h = Some (Thrown 2)"
    and P: "micromark P s po = Inl (Thrown 0)" for s po h so k
    by (simp_all add: E_def T_def P_def plainCollaborators_def throwingListenerCollaborators_def
          throwingCollaborators_def)
  have pf: "parseWithFallback E (emitSource Undefined v) v = Inr ''hi''"
    "parseWithFallback T (emitSource Undefined v) v = Inr ''hi''"
    "parseWithFallback P (emitSource Undefined v) v = Inl (Thrown 0)"
    if "buffer v = ''hi''" "mathSyntax v = \<lparr>brackets = True, dollars = False\<rparr>"
      "\<not> respectNewlines v" for v
    by (simp_all add: parseWithFallback_def src [OF that] E T P)
  note p = pf [OF wf]
  from listener_invoked_every_pass [of E Undefined w "''hi''" "Callback 0"] p(1) l c E
  have one: "calls (snd (flush E w)) = [(Callback 0, ''hi'')]"
    and two: "calls (snd (flush E (snd (flush E w)))) = [(Callback 0, ''hi''), (Callback 0, ''hi'')]"
    by simp_all
  from listener_invoked_every_pass [of E Undefined w "[]" "Callback 0"] l c E
  have three: "calls (snd (clear E w)) = [(Callback 0, [])]"
    by simp
  from listener_invoked_every_pass [of T Undefined w "''hi''" "Callback 0"] p(2) l c T
  have thr: "fst (emit T Undefined w) = Inl (Thrown 2)"
    "calls (snd (emit T Undefined w)) = [(Callback 0, ''hi'')]"
    by simp_all
  from listener_invoked_every_pass [of P Undefined w _ _ "Thrown 0"] p(3) c
  have none: "calls (snd (emit P Undefined w)) = []"
    by simp
  have df: "buffer d = ''hi''" "mathSyntax d = \<lparr>brackets = True, dollars = False\<rparr>"
    "\<not> respectNewlines d" "listener d = Some (DomWriter 5)" "prevHtml d = []"
    "domWrites d = []" "calls d = []"
    using wf c
    by (simp_all add: d_def renderTo_def, simp_all add: w_def write_def schedule_def
          construct_def listeningOptions_def defaultOptions_def)
  from listener_invoked_every_pass [of E Undefined d "''hi''" "DomWriter 5" _ 5]
    pf(1) [OF df(1-3)] df E
  have four: "domWrites d' = [(5, ''hi'')]" "prevHtml d' = ''hi''" "calls d' = [(DomWriter 5, ''hi'')]"
    by (simp_all add: d'_def)
  have df': "buffer d' = ''hi''" "mathSyntax d' = \<lparr>brackets = True, dollars = False\<rparr>"
    "\<not> respectNewlines d'" "listener d' = Some (DomWriter 5)"
    using df by (simp_all add: d'_def emit_frame)
  from listener_invoked_every_pass [of E Undefined d' "''hi''" "DomWriter 5" _ 5]
    pf(1) [OF df'(1-3)] df'(4) four E
  have five: "domWrites (snd (emit E Undefined d')) = [(5, ''hi'')]"
    "calls (snd (emit E Undefined d')) = [(DomWriter 5, ''hi''), (DomWriter 5, ''hi'')]"
    by simp_all
  from l p(1) c one two three thr none four(1) five show ?thesis
    unfolding d'_def d_def w_def E_def T_def P_def by (simp only: simp_thms)
qed

section \<open>\<^verbatim>\<open>destroy\<close>\<close>

lemma emit_silent:
  "listener w = None \<Longrightarrow>
   calls (snd (emit E f w)) = calls w \<and> domWrites (snd (emit E f w)) = domWrites w"
  by (simp add: snd_emit notify_def split: sum.splits)

lemma schedule_listener:
  "listener (schedule w) = listener w" "calls (schedule w) = calls w"
  "domWrites (schedule w) = domWrites w"
  by (simp_all add: schedule_def)

lemma startTypewriter_listener:
  "listener (startTypewriter w) = listener w" "calls (startTypewriter w) = calls w"
  "domWrites (startTypewriter w) = domWrites w"
  by (simp_all add: startTypewriter_def)

lemma write_listener:
  "listener (write v w) = listener w" "calls (write v w) = calls w"
  "domWrites (write v w) = domWrites w"
  by (simp_all add: write_def schedule_listener startTypewriter_listener split: js_value.splits)

lemma update_listener:
  "listener (update v w) = listener w" "calls (update v w) = calls w"
  "domWrites (update v w) = domWrites w"
  by (simp_all add: update_def Let_def schedule_listener startTypewriter_listener
        clearInterval_def split: js_value.splits)

lemma intervalCallback_listener:
  "listener (intervalCallback w) = listener w" "calls (intervalCallback w) = calls w"
  "domWrites (intervalCallback w) = domWrites w"
  by (simp_all add: intervalCallback_def Let_def schedule_listener clearInterval_def
        split: list.splits)

lemma destroy_listener:
  "listener (destroy w) = None" "calls (destroy w) = calls w"
  "domWrites (destroy w) = domWrites w"
  by (simp_all add: destroy_def Let_def clearInterval_def clearTimeout_def)

lemma silent_perform:
  assumes "listener w = None" and "\<not> registersListener ev"
  shows "listener (snd (perform E ev w)) = None
         \<and> calls (snd (perform E ev w)) = calls w
         \<and> domWrites (snd (perform E ev w)) = domWrites w"
proof (cases ev)
  case Flush
  have "snd (flush E w) = snd (emit E Undefined w)"
    by (simp add: flush_def split: prod.splits sum.splits)
  with assms(1) Flush show ?thesis
    by (simp add: emit_silent emit_frame)
next
  case Clear
  let ?w1 = "w\<lparr>buffer := [], twQueue := []\<rparr>"
  let ?w2 = "if twTimer ?w1 \<noteq> None then (clearInterval (twTimer ?w1) ?w1)\<lparr>twTimer := None\<rparr> else ?w1"
  have "snd (clear E w) = snd (emit E (Str []) ?w2)"
    unfolding clear_def Let_def by (simp split: prod.splits sum.splits)
  moreover from assms(1) have "listener ?w2 = None" "calls ?w2 = calls w"
    "domWrites ?w2 = domWrites w"
    by (simp_all add: clearInterval_def)
  ultimately show ?thesis
    using Clear emit_silent [of ?w2 E "Str []"] by (simp add: emit_frame)
next
  case (TimeoutFires h)
  let ?v = "w\<lparr>timeouts := filter (\<lambda>(k, d). k \<noteq> h) (timeouts w), timer := None\<rparr>"
  have "snd (timeoutCallback E (w\<lparr>timeouts := filter (\<lambda>(k, d). k \<noteq> h) (timeouts w)\<rparr>))
          = snd (emit E Undefined ?v)"
    unfolding timeoutCallback_def by (simp split: prod.splits sum.splits)
  moreover from assms(1) have "listener ?v = None" "calls ?v = calls w"
    "domWrites ?v = domWrites w"
    by simp_all
  ultimately show ?thesis
    using TimeoutFires assms(1) emit_silent [of ?v E Undefined] by (simp add: emit_frame)
qed (use assms in \<open>simp_all add: write_listener update_listener intervalCallback_listener
       destroy_listener registerExtensions_def registerHtmlExtensions_def
       setSanitizeOptions_def split: option.splits\<close>)

lemma silent_run:
  "listener w = None \<Longrightarrow> \<not> list_ex registersListener evs \<Longrightarrow>
   calls (run E evs w) = calls w \<and> domWrites (run E evs w) = domWrites w"
proof (induction evs arbitrary: w)
  case Nil
  then show ?case by simp
next
  case (Cons ev evs)
  from Cons.prems have ev: "\<not> registersListener ev" and evs: "\<not> list_ex registersListener evs"
    by simp_all
  from silent_perform [OF Cons.prems(1) ev, of E] Cons.IH [OF _ evs, of "snd (perform E ev w)"]
  show ?case by simp
qed

lemma deadBelow_schedule: "deadBelow n w \<Longrightarrow> deadBelow n (schedule w)"
  by (auto simp: deadBelow_def schedule_def)

lemma deadBelow_startTypewriter: "deadBelow n w \<Longrightarrow> deadBelow n (startTypewriter w)"
  by (auto simp: deadBelow_def startTypewriter_def)

lemma deadBelow_emit: "deadBelow n (snd (emit E f w)) = deadBelow n w"
  by (simp add: deadBelow_def emit_frame)

lemma deadBelow_write: "deadBelow n w \<Longrightarrow> deadBelow n (write v w)"
proof -
  assume d: "deadBelow n w"
  then have "deadBelow n (w\<lparr>twQueue := q\<rparr>)" "deadBelow n (w\<lparr>buffer := b\<rparr>)" for q b
    by (simp_all add: deadBelow_def)
  with d show ?thesis
    by (simp add: write_def deadBelow_schedule deadBelow_startTypewriter split: js_value.splits)
qed

lemma deadBelow_update: "deadBelow n w \<Longrightarrow> deadBelow n (update v w)"
proof -
  assume d: "deadBelow n w"
  then have a: "deadBelow n (w\<lparr>twQueue := q\<rparr>)" "deadBelow n (w\<lparr>buffer := b\<rparr>)"
    "deadBelow n (w\<lparr>twQueue := q, buffer := b\<rparr>)"
    "deadBelow n ((clearInterval t (w\<lparr>twQueue := q\<rparr>))\<lparr>twTimer := None, buffer := b\<rparr>)"
    for q b t
    by (auto simp: deadBelow_def clearInterval_def)
  with d show ?thesis
    by (simp add: update_def Let_def deadBelow_schedule deadBelow_startTypewriter
          split: js_value.splits)
qed

lemma deadBelow_intervalCallback: "deadBelow n w \<Longrightarrow> deadBelow n (intervalCallback w)"
proof -
  assume d: "deadBelow n w"
  then have a: "deadBelow n ((clearInterval t w)\<lparr>twTimer := None\<rparr>)"
    "deadBelow n (w\<lparr>twQueue := q, buffer := b\<rparr>)" for q b t
    by (auto simp: deadBelow_def clearInterval_def)
  then show ?thesis
    by (simp add: intervalCallback_def Let_def deadBelow_schedule split: list.splits)
qed

lemma deadBelow_perform: "deadBelow n w \<Longrightarrow> deadBelow n (snd (perform E ev w))"
proof (cases ev)
  case Flush
  assume "deadBelow n w"
  moreover have "snd (flush E w) = snd (emit E Undefined w)"
    by (simp add: flush_def split: prod.splits sum.splits)
  ultimately show ?thesis
    using Flush by (simp add: deadBelow_emit)
next
  case Clear
  assume d: "deadBelow n w"
  let ?w1 = "w\<lparr>buffer := [], twQueue := []\<rparr>"
  let ?w2 = "if twTimer ?w1 \<noteq> None then (clearInterval (twTimer ?w1) ?w1)\<lparr>twTimer := None\<rparr> else ?w1"
  have "snd (clear E w) = snd (emit E (Str []) ?w2)"
    unfolding clear_def Let_def by (simp split: prod.splits sum.splits)
  moreover from d have "deadBelow n ?w2"
    by (auto simp: deadBelow_def clearInterval_def)
  ultimately show ?thesis
    using Clear by (simp only: perform.simps deadBelow_emit)
next
  case (TimeoutFires h)
  assume d: "deadBelow n w"
  let ?v = "w\<lparr>timeouts := filter (\<lambda>(k, d). k \<noteq> h) (timeouts w), timer := None\<rparr>"
  have "snd (timeoutCallback E (w\<lparr>timeouts := filter (\<lambda>(k, d). k \<noteq> h) (timeouts w)\<rparr>))
          = snd (emit E Undefined ?v)"
    unfolding timeoutCallback_def by (simp split: prod.splits sum.splits)
  moreover from d have "deadBelow n ?v"
    by (auto simp: deadBelow_def)
  ultimately show ?thesis
    using TimeoutFires d by (simp add: deadBelow_emit)
next
  case Destroy
  assume "deadBelow n w"
  then show ?thesis
    using Destroy
    by (auto simp: deadBelow_def destroy_def Let_def clearTimeout_def clearInterval_def)
qed (simp_all add: deadBelow_write deadBelow_update deadBelow_intervalCallback,
     simp_all add: deadBelow_def on_def renderTo_def registerExtensions_def
       registerHtmlExtensions_def setSanitizeOptions_def split: option.splits)

lemma deadBelow_run: "deadBelow n w \<Longrightarrow> deadBelow n (run E evs w)"
  by (induction evs arbitrary: w) (simp_all add: deadBelow_perform)

lemma destroy_fields:
  "buffer (destroy w) = []" "twQueue (destroy w) = []" "timer (destroy w) = None"
  "twTimer (destroy w) = None" "nextHandle (destroy w) = nextHandle w"
  by (simp_all add: destroy_def Let_def clearInterval_def clearTimeout_def)

lemma destroy_no_timers:
  "timersOwned w \<Longrightarrow> timeouts (destroy w) = [] \<and> intervals (destroy w) = []"
  by (cases "timer w"; cases "twTimer w")
     (auto simp: timersOwned_def destroy_def Let_def clearInterval_def clearTimeout_def)

text \<open>
  C9. In every state of a run, \<^verbatim>\<open>destroy\<close> empties the buffer and the pending queue, cancels
  the throttle timer and the ticker (no timer of the instance is live afterwards) and
  detaches the listener. After it, no run of further events other than a new registration
  of a listener (\<^verbatim>\<open>on\<close>, \<^verbatim>\<open>renderTo\<close>), so in particular no sequence of writes, timer
  expiries and flushes, invokes a listener or writes to the document; and no timer created
  before \<^verbatim>\<open>destroy\<close> is ever live again, so none of them fires.
\<close>

theorem destroy_is_final:
  assumes "w = run E evs (construct opts)"
  shows "buffer (destroy w) = [] \<and> twQueue (destroy w) = []
         \<and> timer (destroy w) = None \<and> twTimer (destroy w) = None
         \<and> timeouts (destroy w) = [] \<and> intervals (destroy w) = []
         \<and> listener (destroy w) = None
         \<and> (\<forall>evs'. \<not> list_ex registersListener evs' \<longrightarrow>
               calls (run E evs' (destroy w)) = calls w
               \<and> domWrites (run E evs' (destroy w)) = domWrites w)
         \<and> (\<forall>evs' h. h < nextHandle w \<longrightarrow>
               h \<notin> fst ` set (timeouts (run E evs' (destroy w)))
               \<and> h \<notin> fst ` set (intervals (run E evs' (destroy w)))
               \<and> snd (perform E (TimeoutFires h) (run E evs' (destroy w))) = run E evs' (destroy w)
               \<and> snd (perform E (IntervalFires h) (run E evs' (destroy w))) = run E evs' (destroy w))"
proof -
  have "wellFormed w"
    unfolding assms by (rule wellFormed_reachable)
  then have own: "timersOwned w"
    by (simp add: wellFormed_def)
  note nt = destroy_no_timers [OF own]
  have quiet: "calls (run E evs' (destroy w)) = calls w
               \<and> domWrites (run E evs' (destroy w)) = domWrites w"
    if "\<not> list_ex registersListener evs'" for evs'
    using silent_run [OF destroy_listener(1) that] by (simp add: destroy_listener)
  have "deadBelow (nextHandle w) (destroy w)"
    using nt by (simp add: deadBelow_def destroy_fields)
  then have dead: "deadBelow (nextHandle w) (run E evs' (destroy w))" for evs'
    by (rule deadBelow_run)
  have gone: "h \<notin> fst ` set (timeouts (run E evs' (destroy w)))
               \<and> h \<notin> fst ` set (intervals (run E evs' (destroy w)))
               \<and> snd (perform E (TimeoutFires h) (run E evs' (destroy w))) = run E evs' (destroy w)
               \<and> snd (perform E (IntervalFires h) (run E evs' (destroy w))) = run E evs' (destroy w)"
    if "h < nextHandle w" for evs' h
    using dead [of evs'] that by (simp add: deadBelow_def)
  from nt quiet gone show ?thesis
    by (simp add: destroy_fields destroy_listener)
qed

theorem destroy_is_final_witness:
  "calls (run plainCollaborators [Write (Str ''hi'')] (construct listeningOptions)) = []
   \<and> timeouts (run plainCollaborators [Write (Str ''hi'')] (construct listeningOptions)) = [(1, Finite 16)]
   \<and> timeouts (destroy (run plainCollaborators [Write (Str ''hi'')] (construct listeningOptions))) = []
   \<and> listener (destroy (run plainCollaborators [Write (Str ''hi'')] (construct listeningOptions))) = None
   \<and> calls (run plainCollaborators [Write (Str ''x''), TimeoutFires 2, Flush]
        (destroy (run plainCollaborators [Write (Str ''hi'')] (construct listeningOptions)))) = []
   \<and> snd (perform plainCollaborators (TimeoutFires 1)
        (run plainCollaborators [Write (Str ''x'')]
          (destroy (run plainCollaborators [Write (Str ''hi'')] (construct listeningOptions)))))
       = run plainCollaborators [Write (Str ''x'')]
          (destroy (run plainCollaborators [Write (Str ''hi'')] (construct listeningOptions)))"
proof -
  let ?w = "run plainCollaborators [Write (Str ''hi'')] (construct listeningOptions)"
  have s: "calls ?w = []" "timeouts ?w = [(1, Finite 16)]" "nextHandle ?w = 2"
    by (simp_all add: write_def schedule_def construct_def listeningOptions_def
          defaultOptions_def)
  have q: "\<not> list_ex registersListener [Write (Str ''x''), TimeoutFires 2, Flush]"
    by simp
  from destroy_is_final [OF refl, of plainCollaborators "[Write (Str ''hi'')]" listeningOptions]
  have a: "timeouts (destroy ?w) = []" "listener (destroy ?w) = None"
    and b: "\<forall>evs'. \<not> list_ex registersListener evs' \<longrightarrow>
               calls (run plainCollaborators evs' (destroy ?w)) = calls ?w"
    and c: "\<forall>evs' h. h < nextHandle ?w \<longrightarrow>
               snd (perform plainCollaborators (TimeoutFires h)
                      (run plainCollaborators evs' (destroy ?w)))
                 = run plainCollaborators evs' (destroy ?w)"
    by blast+
  from b [rule_format, OF q] s(1)
  have b': "calls (run plainCollaborators [Write (Str ''x''), TimeoutFires 2, Flush] (destroy ?w)) = []"
    by simp
  from s(3) have "1 < nextHandle ?w" by simp
  from c [rule_format, OF this, of "[Write (Str ''x'')]"]
  have c': "snd (perform plainCollaborators (TimeoutFires 1)
                  (run plainCollaborators [Write (Str ''x'')] (destroy ?w)))
              = run plainCollaborators [Write (Str ''x'')] (destroy ?w)" .
  from s(1,2) a b' c' show ?thesis
    by (simp only: simp_thms)
qed

section \<open>The throttle timer\<close>

text \<open>
  C2, as stated, ends with: N writes within one interval produce exactly one render that
  reflects the concatenation of all N chunks, for every state. In typewriter mode \<^verbatim>\<open>write\<close>
  requests no render: the chunks go to the pending queue. Here two writes leave no throttle
  timer pending and the buffer empty; after the first tick and the expiry of the throttle
  timer that the tick started, the one render pass has read \<^verbatim>\<open>'a'\<close>, not \<^verbatim>\<open>'ab'\<close>. And
  with typewriter mode off, two writes of the empty string start no timer, so no render
  follows them.
\<close>

theorem typewriter_writes_counterexample:
  "timeouts (run plainCollaborators [Write (Str ''a''), Write (Str ''b'')]
              (construct typewriterOnOptions)) = []
   \<and> passes (run plainCollaborators [Write (Str ''a''), Write (Str ''b'')]
              (construct typewriterOnOptions)) = []
   \<and> buffer (run plainCollaborators [Write (Str ''a''), Write (Str ''b'')]
              (construct typewriterOnOptions)) = []
   \<and> twQueue (run plainCollaborators [Write (Str ''a''), Write (Str ''b'')]
              (construct typewriterOnOptions)) = [''a'', ''b'']
   \<and> passes (run plainCollaborators
              [Write (Str ''a''), Write (Str ''b''), IntervalFires 1, TimeoutFires 2]
              (construct typewriterOnOptions)) = [''a'']
   \<and> timeouts (run plainCollaborators [Write (Str []), Write (Str [])]
              (construct defaultOptions)) = []"
  by code_simp

lemma writes_coalesce:
  "\<not> enabled (typewriter w) \<Longrightarrow>
   buffer (run E (map (\<lambda>c. Write (Str c)) chunks) w) = buffer w @ concat chunks
   \<and> passes (run E (map (\<lambda>c. Write (Str c)) chunks) w) = passes w
   \<and> calls (run E (map (\<lambda>c. Write (Str c)) chunks) w) = calls w
   \<and> throttleMs (run E (map (\<lambda>c. Write (Str c)) chunks) w) = throttleMs w
   \<and> mathSyntax (run E (map (\<lambda>c. Write (Str c)) chunks) w) = mathSyntax w
   \<and> respectNewlines (run E (map (\<lambda>c. Write (Str c)) chunks) w) = respectNewlines w
   \<and> (timer w \<noteq> None \<or> concat chunks \<noteq> [] \<longrightarrow>
        timer (run E (map (\<lambda>c. Write (Str c)) chunks) w) \<noteq> None)"
proof (induction chunks arbitrary: w)
  case Nil
  show ?case by simp
next
  case (Cons c chunks)
  show ?case
  proof (cases "c = []")
    case True
    then have "snd (perform E (Write (Str c)) w) = w"
      by (simp add: write_def)
    with Cons.IH [OF Cons.prems] True show ?thesis
      unfolding list.map run.simps by simp
  next
    case False
    let ?v = "schedule (w\<lparr>buffer := buffer w @ c\<rparr>)"
    have st: "snd (perform E (Write (Str c)) w) = ?v"
      using False Cons.prems by (simp add: write_def)
    have v: "\<not> enabled (typewriter ?v)" "buffer ?v = buffer w @ c" "passes ?v = passes w"
      "calls ?v = calls w" "throttleMs ?v = throttleMs w" "mathSyntax ?v = mathSyntax w"
      "respectNewlines ?v = respectNewlines w" "timer ?v \<noteq> None"
      using Cons.prems by (simp_all add: schedule_def)
    from Cons.IH [OF v(1)] v(2-8) show ?thesis
      unfolding list.map run.simps st by simp
  qed
qed

text \<open>In typewriter mode the writes only queue their chunks.\<close>

lemma writes_queue:
  "enabled (typewriter w) \<Longrightarrow>
   buffer (run E (map (\<lambda>c. Write (Str c)) chunks) w) = buffer w
   \<and> passes (run E (map (\<lambda>c. Write (Str c)) chunks) w) = passes w
   \<and> timer (run E (map (\<lambda>c. Write (Str c)) chunks) w) = timer w
   \<and> timeouts (run E (map (\<lambda>c. Write (Str c)) chunks) w) = timeouts w
   \<and> twQueue (run E (map (\<lambda>c. Write (Str c)) chunks) w)
        = twQueue w @ filter (\<lambda>c. c \<noteq> []) chunks"
proof (induction chunks arbitrary: w)
  case Nil
  show ?case by simp
next
  case (Cons c chunks)
  let ?v = "write (Str c) w"
  have v: "enabled (typewriter ?v)" "buffer ?v = buffer w" "passes ?v = passes w"
    "timer ?v = timer w" "timeouts ?v = timeouts w"
    "twQueue ?v = twQueue w @ (if c = [] then [] else [c])"
    using Cons.prems by (simp_all add: write_def startTypewriter_def)
  from Cons.IH [OF v(1)] v(2-6) show ?case
    by simp
qed

lemma empty_writes: "concat chunks = [] \<Longrightarrow> run E (map (\<lambda>c. Write (Str c)) chunks) w = w"
  by (induction chunks) (simp_all add: write_def)

lemma timeout_fires:
  assumes "timersOwned w" and "timer w = Some h"
  shows "timer (snd (perform E (TimeoutFires h) w)) = None"
    and "timeouts (snd (perform E (TimeoutFires h) w)) = []"
    and "passes (snd (perform E (TimeoutFires h) w))
           = passes w @ [preprocess (mathSyntax w) (respectNewlines w) (buffer w)]"
    and "buffer (snd (perform E (TimeoutFires h) w)) = buffer w"
    and "parseWithFallback E (preprocess (mathSyntax w) (respectNewlines w) (buffer w)) w = Inr html
         \<Longrightarrow> listener w = Some l
         \<Longrightarrow> calls (snd (perform E (TimeoutFires h) w))
               = calls w @ [(l, sanitize E html (sanitizeOptions w))]"
proof -
  from assms have live: "timeouts w = [(h, throttleMs w)]"
    by (simp add: timersOwned_def)
  let ?v = "w\<lparr>timeouts := filter (\<lambda>(k, d). k \<noteq> h) (timeouts w), timer := None\<rparr>"
  have "snd (timeoutCallback E (w\<lparr>timeouts := filter (\<lambda>(k, d). k \<noteq> h) (timeouts w)\<rparr>))
          = snd (emit E Undefined ?v)"
    unfolding timeoutCallback_def by (simp split: prod.splits sum.splits)
  with live have p: "snd (perform E (TimeoutFires h) w) = snd (emit E Undefined ?v)"
    by simp
  have src: "emitSource Undefined (w\<lparr>timeouts := ts, timer := None\<rparr>)
               = preprocess (mathSyntax w) (respectNewlines w) (buffer w)" for ts
    by (simp add: emitSource_def)
  have pf: "parseWithFallback E s (w\<lparr>timeouts := ts, timer := None\<rparr>) = parseWithFallback E s w"
    for s ts
    by (simp add: parseWithFallback_def fullOptions_def minimalOptions_def split: sum.splits)
  from live show "timer (snd (perform E (TimeoutFires h) w)) = None"
    and "timeouts (snd (perform E (TimeoutFires h) w)) = []"
    and "passes (snd (perform E (TimeoutFires h) w))
           = passes w @ [preprocess (mathSyntax w) (respectNewlines w) (buffer w)]"
    and "buffer (snd (perform E (TimeoutFires h) w)) = buffer w"
    unfolding p by (simp_all add: emit_frame emit_passes src)
  show "calls (snd (perform E (TimeoutFires h) w))
          = calls w @ [(l, sanitize E html (sanitizeOptions w))]"
    if "parseWithFallback E (preprocess (mathSyntax w) (respectNewlines w) (buffer w)) w = Inr html"
      "listener w = Some l"
    using that unfolding p by (simp add: snd_emit src pf notify_result)
qed

text \<open>
  C2, amended. In every state of a run at most one throttle timer is pending and at most one
  ticker is active. A schedule request while a throttle timer is pending changes nothing;
  otherwise it starts one one-shot timer with the configured interval. When the timer
  expires the pending state is cleared and exactly one render pass runs: it hands to the
  parser the preprocessed buffer as the buffer is at that moment, and the listener gets the
  sanitized result of it. So, with typewriter mode off, N writes of which at least one has a
  non-empty chunk run no render pass themselves, leave one timer pending, and its expiry runs
  exactly one render pass, on the earlier buffer followed by the concatenation of the N
  chunks; no timer is pending after it. In typewriter mode N writes run no render pass and
  leave the buffer and the throttle timer as they are: the non-empty chunks go to the
  pending queue. Writes of empty chunks only change nothing.
\<close>

theorem throttle_coalesces:
  assumes "w = run E evs (construct opts)"
  shows "length (timeouts w) \<le> 1 \<and> length (intervals w) \<le> 1
         \<and> (timer w \<noteq> None \<longrightarrow> schedule w = w)
         \<and> (timer w = None \<longrightarrow>
              timeouts w = []
              \<and> timer (schedule w) = Some (nextHandle w)
              \<and> timeouts (schedule w) = [(nextHandle w, throttleMs w)])
         \<and> (\<forall>h. timer w = Some h \<longrightarrow>
              timeouts w = [(h, throttleMs w)]
              \<and> timer (snd (perform E (TimeoutFires h) w)) = None
              \<and> timeouts (snd (perform E (TimeoutFires h) w)) = []
              \<and> passes (snd (perform E (TimeoutFires h) w))
                   = passes w @ [preprocess (mathSyntax w) (respectNewlines w) (buffer w)]
              \<and> (\<forall>html l. parseWithFallback E
                              (preprocess (mathSyntax w) (respectNewlines w) (buffer w)) w = Inr html
                            \<and> listener w = Some l \<longrightarrow>
                   calls (snd (perform E (TimeoutFires h) w))
                     = calls w @ [(l, sanitize E html (sanitizeOptions w))]))
         \<and> (\<forall>chunks. \<not> enabled (typewriter w) \<and> concat chunks \<noteq> [] \<longrightarrow>
              (let w' = run E (map (\<lambda>c. Write (Str c)) chunks) w
               in passes w' = passes w
                  \<and> buffer w' = buffer w @ concat chunks
                  \<and> (\<exists>h. timer w' = Some h \<and> timeouts w' = [(h, throttleMs w)]
                          \<and> passes (snd (perform E (TimeoutFires h) w'))
                               = passes w @ [preprocess (mathSyntax w) (respectNewlines w)
                                               (buffer w @ concat chunks)]
                          \<and> timeouts (snd (perform E (TimeoutFires h) w')) = [])))
         \<and> (\<forall>chunks. enabled (typewriter w) \<longrightarrow>
              (let w' = run E (map (\<lambda>c. Write (Str c)) chunks) w
               in passes w' = passes w \<and> buffer w' = buffer w
                  \<and> timer w' = timer w \<and> timeouts w' = timeouts w
                  \<and> twQueue w' = twQueue w @ filter (\<lambda>c. c \<noteq> []) chunks))
         \<and> (\<forall>chunks. concat chunks = [] \<longrightarrow> run E (map (\<lambda>c. Write (Str c)) chunks) w = w)"
proof -
  have wf: "wellFormed w"
    unfolding assms by (rule wellFormed_reachable)
  then have own: "timersOwned w"
    by (simp add: wellFormed_def)
  have A: "length (timeouts w) \<le> 1 \<and> length (intervals w) \<le> 1"
    using own by (cases "timer w"; cases "twTimer w") (simp_all add: timersOwned_def)
  have B: "timer w \<noteq> None \<longrightarrow> schedule w = w"
    by (simp add: schedule_def)
  have C: "timer w = None \<longrightarrow>
              timeouts w = []
              \<and> timer (schedule w) = Some (nextHandle w)
              \<and> timeouts (schedule w) = [(nextHandle w, throttleMs w)]"
    using own by (simp add: schedule_def timersOwned_def)
  have D: "timeouts w = [(h, throttleMs w)]
              \<and> timer (snd (perform E (TimeoutFires h) w)) = None
              \<and> timeouts (snd (perform E (TimeoutFires h) w)) = []
              \<and> passes (snd (perform E (TimeoutFires h) w))
                   = passes w @ [preprocess (mathSyntax w) (respectNewlines w) (buffer w)]
              \<and> (\<forall>html l. parseWithFallback E
                              (preprocess (mathSyntax w) (respectNewlines w) (buffer w)) w = Inr html
                            \<and> listener w = Some l \<longrightarrow>
                   calls (snd (perform E (TimeoutFires h) w))
                     = calls w @ [(l, sanitize E html (sanitizeOptions w))])"
    if "timer w = Some h" for h
    using timeout_fires [OF own that, of E] own that by (simp add: timersOwned_def)
  have F: "let w' = run E (map (\<lambda>c. Write (Str c)) chunks) w
               in passes w' = passes w
                  \<and> buffer w' = buffer w @ concat chunks
                  \<and> (\<exists>h. timer w' = Some h \<and> timeouts w' = [(h, throttleMs w)]
                          \<and> passes (snd (perform E (TimeoutFires h) w'))
                               = passes w @ [preprocess (mathSyntax w) (respectNewlines w)
                                               (buffer w @ concat chunks)]
                          \<and> timeouts (snd (perform E (TimeoutFires h) w')) = [])"
    if off: "\<not> enabled (typewriter w)" and ne: "concat chunks \<noteq> []"
    for chunks
  proof -
    let ?v = "run E (map (\<lambda>c. Write (Str c)) chunks) w"
    from writes_coalesce [OF off, of E chunks] ne
    have c: "buffer ?v = buffer w @ concat chunks" "passes ?v = passes w"
      "throttleMs ?v = throttleMs w" "timer ?v \<noteq> None" "mathSyntax ?v = mathSyntax w"
      "respectNewlines ?v = respectNewlines w"
      by blast+
    have "wellFormed ?v"
      using wf by (rule wellFormed_run)
    then have ownv: "timersOwned ?v"
      by (simp add: wellFormed_def)
    from c(4) obtain h where h: "timer ?v = Some h" by auto
    with ownv c(3) have live: "timeouts ?v = [(h, throttleMs w)]"
      by (simp add: timersOwned_def)
    from timeout_fires(2,3) [OF ownv h, of E] c
    have "passes (snd (perform E (TimeoutFires h) ?v))
            = passes w @ [preprocess (mathSyntax w) (respectNewlines w) (buffer w @ concat chunks)]"
      "timeouts (snd (perform E (TimeoutFires h) ?v)) = []"
      by simp_all
    with h live c(1,2) show ?thesis
      unfolding Let_def by blast
  qed
  have G: "let w' = run E (map (\<lambda>c. Write (Str c)) chunks) w
               in passes w' = passes w \<and> buffer w' = buffer w
                  \<and> timer w' = timer w \<and> timeouts w' = timeouts w
                  \<and> twQueue w' = twQueue w @ filter (\<lambda>c. c \<noteq> []) chunks"
    if "enabled (typewriter w)" for chunks
    unfolding Let_def using writes_queue [OF that, of E chunks] by blast
  have H: "concat chunks = [] \<longrightarrow> run E (map (\<lambda>c. Write (Str c)) chunks) w = w" for chunks
    using empty_writes [of chunks E w] by blast
  from A B C D F G H show ?thesis by blast
qed

theorem throttle_coalesces_witness:
  "\<not> enabled (typewriter (construct listeningOptions))
   \<and> timer (construct listeningOptions) = None
   \<and> timeouts (schedule (construct listeningOptions)) = [(1, Finite 16)]
   \<and> passes (run plainCollaborators [Write (Str ''ab''), Write (Str ''c''), Write (Str ''de'')]
               (construct listeningOptions)) = []
   \<and> timeouts (run plainCollaborators [Write (Str ''ab''), Write (Str ''c''), Write (Str ''de'')]
               (construct listeningOptions)) = [(1, Finite 16)]
   \<and> passes (run plainCollaborators
               [Write (Str ''ab''), Write (Str ''c''), Write (Str ''de''), TimeoutFires 1]
               (construct listeningOptions)) = [''abcde'']
   \<and> calls (run plainCollaborators
               [Write (Str ''ab''), Write (Str ''c''), Write (Str ''de''), TimeoutFires 1]
               (construct listeningOptions)) = [(Callback 0, ''abcde'')]
   \<and> timeouts (run plainCollaborators
               [Write (Str ''ab''), Write (Str ''c''), Write (Str ''de''), TimeoutFires 1]
               (construct listeningOptions)) = []
   \<and> timer (run plainCollaborators [Write (Str ''ab''), Write (Str ''c''), Write (Str ''de'')]
               (construct listeningOptions)) = Some 1
   \<and> schedule (run plainCollaborators [Write (Str ''ab''), Write (Str ''c''), Write (Str ''de'')]
               (construct listeningOptions))
       = run plainCollaborators [Write (Str ''ab''), Write (Str ''c''), Write (Str ''de'')]
               (construct listeningOptions)
   \<and> timer (run plainCollaborators
               [Write (Str ''ab''), Write (Str ''c''), Write (Str ''de''), TimeoutFires 1]
               (construct listeningOptions)) = None
   \<and> twQueue (run plainCollaborators [Write (Str ''a''), Write (Str []), Write (Str ''b'')]
               (construct typewriterOnOptions)) = [''a'', ''b'']
   \<and> timeouts (run plainCollaborators [Write (Str ''a''), Write (Str []), Write (Str ''b'')]
               (construct typewriterOnOptions)) = []
   \<and> run plainCollaborators [Write (Str []), Write (Str [])] (construct listeningOptions)
       = construct listeningOptions"
proof -
  define E where "E = plainCollaborators"
  define init where "init = construct listeningOptions"
  define chunks where "chunks = [''ab'', ''c'', ''de'']"
  define v where "v = run E (map (\<lambda>c. Write (Str c)) chunks) init"
  define v' where "v' = snd (perform E (TimeoutFires 1) v)"
  define tw where "tw = construct typewriterOnOptions"
  have r: "init = run E [] (construct listeningOptions)"
    by (simp add: init_def)
  have s: "\<not> enabled (typewriter init)" "timer init = None" "nextHandle init = 1"
    "throttleMs init = Finite 16" "passes init = []" "buffer init = []"
    "mathSyntax init = \<lparr>brackets = True, dollars = False\<rparr>" "\<not> respectNewlines init"
    by (simp_all add: init_def construct_def listeningOptions_def defaultOptions_def)
  have t: "timer v = Some 1" "listener v = Some (Callback 0)" "calls v = []"
    "mathSyntax v = \<lparr>brackets = True, dollars = False\<rparr>" "\<not> respectNewlines v"
    "buffer v = ''abcde''" "passes v = []"
    by (simp_all add: v_def chunks_def init_def write_def schedule_def construct_def
          listeningOptions_def defaultOptions_def)
  have c: "concat chunks \<noteq> []" "concat chunks = ''abcde''"
    by (simp_all add: chunks_def)
  have pp: "preprocess \<lparr>brackets = True, dollars = False\<rparr> False ''abcde'' = ''abcde''"
    by code_simp
  have E: "micromark E src po = Inr src" "sanitize E h so = h" for src po h so
    by (simp_all add: E_def plainCollaborators_def)
  note th = throttle_coalesces [OF r]
  from th s(2,3,4) have g: "timeouts (schedule init) = [(1, Finite 16)]"
    by simp
  from th have co: "\<forall>chunks. \<not> enabled (typewriter init) \<and> concat chunks \<noteq> [] \<longrightarrow>
              (let w' = run E (map (\<lambda>c. Write (Str c)) chunks) init
               in passes w' = passes init
                  \<and> (\<exists>h. timer w' = Some h \<and> timeouts w' = [(h, throttleMs init)]
                          \<and> passes (snd (perform E (TimeoutFires h) w'))
                               = passes init @ [preprocess (mathSyntax init) (respectNewlines init)
                                               (buffer init @ concat chunks)]
                          \<and> timeouts (snd (perform E (TimeoutFires h) w')) = []))"
    unfolding Let_def by blast
  from co [rule_format, of chunks] s(1) c(1)
  obtain h where "timer v = Some h" "timeouts v = [(h, throttleMs init)]"
    "passes (snd (perform E (TimeoutFires h) v))
       = passes init @ [preprocess (mathSyntax init) (respectNewlines init)
                          (buffer init @ concat chunks)]"
    "timeouts (snd (perform E (TimeoutFires h) v)) = []"
    unfolding Let_def v_def by blast
  with t(1) s c(2) pp have f: "timeouts v = [(1, Finite 16)]" "passes v' = [''abcde'']"
    "timeouts v' = []"
    by (simp_all add: v'_def)
  have rv: "v = run E [Write (Str ''ab''), Write (Str ''c''), Write (Str ''de'')]
                  (construct listeningOptions)"
    by (simp add: v_def chunks_def init_def)
  note tv = throttle_coalesces [OF rv]
  from tv t(1) have "schedule v = v \<and> timer (snd (perform E (TimeoutFires 1) v)) = None"
    by blast
  then have k: "schedule v = v" "timer v' = None"
    unfolding v'_def by blast+
  have "parseWithFallback E (preprocess (mathSyntax v) (respectNewlines v) (buffer v)) v
          = Inr ''abcde''"
    by (simp add: parseWithFallback_def E t pp)
  moreover from tv t(1)
  have "\<forall>html l. parseWithFallback E
                    (preprocess (mathSyntax v) (respectNewlines v) (buffer v)) v = Inr html
                  \<and> listener v = Some l \<longrightarrow>
          calls (snd (perform E (TimeoutFires 1) v))
            = calls v @ [(l, sanitize E html (sanitizeOptions v))]"
    by blast
  ultimately have "calls (snd (perform E (TimeoutFires 1) v))
            = calls v @ [(Callback 0, sanitize E ''abcde'' (sanitizeOptions v))]"
    using t(2) by blast
  then have cl: "calls v' = [(Callback 0, ''abcde'')]"
    unfolding v'_def t(3) E by simp
  have rt: "tw = run E [] (construct typewriterOnOptions)"
    by (simp add: tw_def)
  have ts: "enabled (typewriter tw)" "twQueue tw = []" "timeouts tw = []"
    by (simp_all add: tw_def construct_def typewriterOnOptions_def defaultOptions_def)
  from throttle_coalesces [OF rt] ts(1)
  have "\<forall>chunks. let w' = run E (map (\<lambda>c. Write (Str c)) chunks) tw
               in timeouts w' = timeouts tw
                  \<and> twQueue w' = twQueue tw @ filter (\<lambda>c. c \<noteq> []) chunks"
    unfolding Let_def by blast
  from this [rule_format, of "[''a'', [], ''b'']"] ts
  have q: "twQueue (run E [Write (Str ''a''), Write (Str []), Write (Str ''b'')] tw) = [''a'', ''b'']"
    "timeouts (run E [Write (Str ''a''), Write (Str []), Write (Str ''b'')] tw) = []"
    unfolding Let_def by simp_all
  from th have "\<forall>chunks. concat chunks = [] \<longrightarrow> run E (map (\<lambda>c. Write (Str c)) chunks) init = init"
    by blast
  from this [rule_format, of "[[], []]"]
  have z: "run E [Write (Str []), Write (Str [])] init = init"
    by simp
  have e1: "run plainCollaborators [Write (Str ''ab''), Write (Str ''c''), Write (Str ''de''),
              TimeoutFires 1] (construct listeningOptions) = v'"
    by (simp add: v'_def v_def chunks_def init_def E_def)
  have e2: "run plainCollaborators [Write (Str ''ab''), Write (Str ''c''), Write (Str ''de'')]
              (construct listeningOptions) = v"
    by (simp add: v_def chunks_def init_def E_def)
  from s(1,2) g t(1,7) f cl k q z show ?thesis
    unfolding e1 e2 unfolding init_def tw_def E_def by (simp only: simp_thms)
qed

section \<open>The bracket rewrite\<close>

lemma delimAt_isDelim: "isDelim d dl \<Longrightarrow> d \<noteq> BSL \<Longrightarrow> delimAt d (dl @ r) = Some r"
  by (auto simp: isDelim_def delimAt_def)

lemma delimAt_Some:
  assumes "d \<noteq> BSL"
  shows "delimAt d s = Some r \<longleftrightarrow> (\<exists>dl. isDelim d dl \<and> s = dl @ r)"
proof
  assume "delimAt d s = Some r"
  then have "(take 3 s = [BSL, BSL, d] \<and> r = drop 3 s) \<or> (take 2 s = [BSL, d] \<and> r = drop 2 s)"
    by (auto simp: delimAt_def split: if_splits)
  then show "\<exists>dl. isDelim d dl \<and> s = dl @ r"
  proof
    assume h: "take 3 s = [BSL, BSL, d] \<and> r = drop 3 s"
    have "s = take 3 s @ drop 3 s" by simp
    with h have "isDelim d [BSL, BSL, d] \<and> s = [BSL, BSL, d] @ r"
      by (simp add: isDelim_def)
    then show ?thesis by blast
  next
    assume h: "take 2 s = [BSL, d] \<and> r = drop 2 s"
    have "s = take 2 s @ drop 2 s" by simp
    with h have "isDelim d [BSL, d] \<and> s = [BSL, d] @ r"
      by (simp add: isDelim_def)
    then show ?thesis by blast
  qed
next
  assume "\<exists>dl. isDelim d dl \<and> s = dl @ r"
  with assms show "delimAt d s = Some r"
    by (auto simp: delimAt_isDelim)
qed

lemma replaceSpans_skip:
  "noSpanWithin opn cls b pre rest \<Longrightarrow>
   replaceSpans opn cls b wrap (pre @ rest) = pre @ replaceSpans opn cls b wrap rest"
  by (induction pre) simp_all

lemma findClose_first:
  "noDelimWithin cls inner tail \<Longrightarrow> b \<or> list_all (\<lambda>c. \<not> isLineTerminator c) inner \<Longrightarrow>
   delimAt cls tail = Some post \<Longrightarrow> findClose cls b (inner @ tail) = Some (inner, post)"
proof (induction inner)
  case Nil
  from Nil.prems(3) obtain c cs where "tail = c # cs"
    by (cases tail) (auto simp: delimAt_def)
  with Nil.prems(3) show ?case by simp
next
  case (Cons x xs)
  from Cons.prems have "findClose cls b (xs @ tail) = Some (xs, post)"
    by (intro Cons.IH) auto
  with Cons.prems(1,2) show ?case by auto
qed

text \<open>The lazy group ends at the first closing delimiter.\<close>

lemma findClose_Some:
  assumes "cls \<noteq> BSL"
  shows "findClose cls b s = Some (inner, post) \<Longrightarrow>
         \<exists>cd. isDelim cls cd \<and> s = inner @ cd @ post \<and> noDelimWithin cls inner (cd @ post)
              \<and> (b \<or> list_all (\<lambda>c. \<not> isLineTerminator c) inner)"
proof (induction s arbitrary: inner)
  case Nil
  then show ?case by simp
next
  case (Cons c cs)
  show ?case
  proof (cases "delimAt cls (c # cs)")
    case (Some rest)
    with Cons.prems have e: "inner = []" "post = rest" by simp_all
    from Some obtain cd where "isDelim cls cd" "c # cs = cd @ rest"
      using delimAt_Some [OF assms] by blast
    with e show ?thesis by auto
  next
    case None
    with Cons.prems obtain inner' where f: "findClose cls b cs = Some (inner', post)"
      and i: "inner = c # inner'" and l: "b \<or> \<not> isLineTerminator c"
      by (auto split: if_splits option.splits)
    from Cons.IH [OF f] obtain cd where cd: "isDelim cls cd" "cs = inner' @ cd @ post"
      "noDelimWithin cls inner' (cd @ post)" "b \<or> list_all (\<lambda>c. \<not> isLineTerminator c) inner'"
      by blast
    from None cd(2) have "delimAt cls (c # inner' @ cd @ post) = None" by simp
    with cd i l have "isDelim cls cd \<and> c # cs = inner @ cd @ post
        \<and> noDelimWithin cls inner (cd @ post) \<and> (b \<or> list_all (\<lambda>c. \<not> isLineTerminator c) inner)"
      by auto
    then show ?thesis by blast
  qed
qed

text \<open>A closing delimiter after text that the group may match is found.\<close>

lemma findClose_exists:
  assumes "cls \<noteq> BSL" and "isDelim cls cd"
  shows "b \<or> list_all (\<lambda>c. \<not> isLineTerminator c) inner \<Longrightarrow>
         findClose cls b (inner @ cd @ post) \<noteq> None"
proof (induction inner)
  case Nil
  have d: "delimAt cls (cd @ post) = Some post"
    by (rule delimAt_isDelim [OF assms(2,1)])
  from assms(2) obtain x xs where "cd @ post = x # xs"
    by (auto simp: isDelim_def)
  with d show ?case by simp
next
  case (Cons x xs)
  then have "findClose cls b (xs @ cd @ post) \<noteq> None" by auto
  with Cons.prems show ?case
    by (auto split: option.splits)
qed

lemma spanAt_Some:
  assumes "opn \<noteq> BSL" and "cls \<noteq> BSL" and "spanAt opn cls b s = Some (inner, post)"
  shows "\<exists>od cd. isDelim opn od \<and> isDelim cls cd \<and> s = od @ inner @ cd @ post
           \<and> noDelimWithin cls inner (cd @ post)
           \<and> (b \<or> list_all (\<lambda>c. \<not> isLineTerminator c) inner)"
proof -
  from assms(3) obtain r where r: "delimAt opn s = Some r" "findClose cls b r = Some (inner, post)"
    by (auto simp: spanAt_def split: option.splits)
  from r(1) obtain od where od: "isDelim opn od" "s = od @ r"
    using delimAt_Some [OF assms(1)] by blast
  from findClose_Some [OF assms(2) r(2)] obtain cd where "isDelim cls cd" "r = inner @ cd @ post"
    "noDelimWithin cls inner (cd @ post)" "b \<or> list_all (\<lambda>c. \<not> isLineTerminator c) inner"
    by blast
  with od show ?thesis by blast
qed

lemma spanAt_None:
  assumes "opn \<noteq> BSL" and "cls \<noteq> BSL"
  shows "spanAt opn cls b s = None \<longleftrightarrow>
         \<not> (\<exists>od inner cd post. s = od @ inner @ cd @ post \<and> isDelim opn od \<and> isDelim cls cd
               \<and> (b \<or> list_all (\<lambda>c. \<not> isLineTerminator c) inner))"
proof
  assume n: "spanAt opn cls b s = None"
  show "\<not> (\<exists>od inner cd post. s = od @ inner @ cd @ post \<and> isDelim opn od \<and> isDelim cls cd
               \<and> (b \<or> list_all (\<lambda>c. \<not> isLineTerminator c) inner))"
  proof
    assume "\<exists>od inner cd post. s = od @ inner @ cd @ post \<and> isDelim opn od \<and> isDelim cls cd
               \<and> (b \<or> list_all (\<lambda>c. \<not> isLineTerminator c) inner)"
    then obtain od inner cd post where d: "s = od @ inner @ cd @ post" "isDelim opn od"
      "isDelim cls cd" "b \<or> list_all (\<lambda>c. \<not> isLineTerminator c) inner"
      by blast
    have "delimAt opn s = Some (inner @ cd @ post)"
      unfolding d(1) by (rule delimAt_isDelim [OF d(2) assms(1)])
    moreover have "findClose cls b (inner @ cd @ post) \<noteq> None"
      by (rule findClose_exists [OF assms(2) d(3,4)])
    ultimately have "spanAt opn cls b s \<noteq> None"
      by (simp add: spanAt_def)
    with n show False by simp
  qed
next
  assume n: "\<not> (\<exists>od inner cd post. s = od @ inner @ cd @ post \<and> isDelim opn od \<and> isDelim cls cd
               \<and> (b \<or> list_all (\<lambda>c. \<not> isLineTerminator c) inner))"
  show "spanAt opn cls b s = None"
  proof (rule ccontr)
    assume "spanAt opn cls b s \<noteq> None"
    then obtain inner post where "spanAt opn cls b s = Some (inner, post)"
      by auto
    from spanAt_Some [OF assms this] n show False
      by blast
  qed
qed

lemma noSpanWithin_suffixes:
  "noSpanWithin opn cls b pre rest
     \<longleftrightarrow> (\<forall>q. suffix q pre \<and> q \<noteq> [] \<longrightarrow> spanAt opn cls b (q @ rest) = None)"
proof (induction pre)
  case Nil
  show ?case by simp
next
  case (Cons x xs)
  have "(\<forall>q. suffix q (x # xs) \<and> q \<noteq> [] \<longrightarrow> spanAt opn cls b (q @ rest) = None)
          \<longleftrightarrow> spanAt opn cls b ((x # xs) @ rest) = None
              \<and> (\<forall>q. suffix q xs \<and> q \<noteq> [] \<longrightarrow> spanAt opn cls b (q @ rest) = None)"
    by (auto simp: suffix_Cons)
  with Cons.IH show ?case by simp
qed

lemma noSpanWithin_meaning:
  assumes "opn \<noteq> BSL" and "cls \<noteq> BSL"
  shows "noSpanWithin opn cls b pre rest
     \<longleftrightarrow> (\<forall>q. suffix q pre \<and> q \<noteq> [] \<longrightarrow>
            \<not> (\<exists>od inner cd post. q @ rest = od @ inner @ cd @ post
                  \<and> isDelim opn od \<and> isDelim cls cd
                  \<and> (b \<or> list_all (\<lambda>c. \<not> isLineTerminator c) inner)))"
  unfolding noSpanWithin_suffixes spanAt_None [OF assms] ..

text \<open>A text without spans, or its first span.\<close>

lemma first_span:
  assumes "opn \<noteq> BSL" and "cls \<noteq> BSL"
  shows "noSpanWithin opn cls b s []
         \<or> (\<exists>pre od inner cd post. s = pre @ od @ inner @ cd @ post
              \<and> isDelim opn od \<and> isDelim cls cd
              \<and> noSpanWithin opn cls b pre (od @ inner @ cd @ post)
              \<and> noDelimWithin cls inner (cd @ post)
              \<and> (b \<or> list_all (\<lambda>c. \<not> isLineTerminator c) inner))"
proof (induction s)
  case Nil
  show ?case by simp
next
  case (Cons x xs)
  show ?case
  proof (cases "spanAt opn cls b (x # xs)")
    case (Some p)
    then obtain inner post where "spanAt opn cls b (x # xs) = Some (inner, post)"
      by (cases p) simp
    from spanAt_Some [OF assms this] obtain od cd where "isDelim opn od" "isDelim cls cd"
      "x # xs = [] @ od @ inner @ cd @ post" "noDelimWithin cls inner (cd @ post)"
      "b \<or> list_all (\<lambda>c. \<not> isLineTerminator c) inner"
      by auto
    moreover have "noSpanWithin opn cls b [] (od @ inner @ cd @ post)" by simp
    ultimately show ?thesis by blast
  next
    case None
    from Cons.IH show ?thesis
    proof
      assume "noSpanWithin opn cls b xs []"
      with None show ?thesis by simp
    next
      assume "\<exists>pre od inner cd post. xs = pre @ od @ inner @ cd @ post
              \<and> isDelim opn od \<and> isDelim cls cd
              \<and> noSpanWithin opn cls b pre (od @ inner @ cd @ post)
              \<and> noDelimWithin cls inner (cd @ post)
              \<and> (b \<or> list_all (\<lambda>c. \<not> isLineTerminator c) inner)"
      then obtain pre od inner cd post where d: "xs = pre @ od @ inner @ cd @ post"
        "isDelim opn od" "isDelim cls cd" "noSpanWithin opn cls b pre (od @ inner @ cd @ post)"
        "noDelimWithin cls inner (cd @ post)" "b \<or> list_all (\<lambda>c. \<not> isLineTerminator c) inner"
        by blast
      from None d(1,4) have "noSpanWithin opn cls b (x # pre) (od @ inner @ cd @ post)"
        by simp
      moreover from d(1) have "x # xs = (x # pre) @ od @ inner @ cd @ post" by simp
      ultimately show ?thesis
        using d(2,3,5,6) by blast
    qed
  qed
qed

lemma replaceSpans_span:
  assumes "isDelim opn od" and "isDelim cls cd" and "opn \<noteq> BSL" and "cls \<noteq> BSL"
    and "noSpanWithin opn cls b pre (od @ inner @ cd @ post)"
    and "noDelimWithin cls inner (cd @ post)"
    and "b \<or> list_all (\<lambda>c. \<not> isLineTerminator c) inner"
  shows "replaceSpans opn cls b wrap (pre @ od @ inner @ cd @ post)
           = pre @ wrap inner @ replaceSpans opn cls b wrap post"
proof -
  from assms(1) obtain x xs where od: "od @ inner @ cd @ post = x # xs"
    by (auto simp: isDelim_def)
  have "delimAt opn (od @ inner @ cd @ post) = Some (inner @ cd @ post)"
    by (rule delimAt_isDelim [OF assms(1,3)])
  moreover have "findClose cls b (inner @ cd @ post) = Some (inner, post)"
    by (rule findClose_first [OF assms(6,7) delimAt_isDelim [OF assms(2,4)]])
  ultimately have "spanAt opn cls b (x # xs) = Some (inner, post)"
    unfolding od [symmetric] by (simp add: spanAt_def)
  then have "replaceSpans opn cls b wrap (x # xs) = wrap inner @ replaceSpans opn cls b wrap post"
    by simp
  with replaceSpans_skip [OF assms(5), of wrap] od show ?thesis
    by simp
qed

lemma x2_block:
  "replaceInlineMath (replaceBlockMath (BSL # ''[x^2'' @ BSL # '']''))
     = ''$$'' @ [LF] @ ''x^2'' @ [LF] @ ''$$''"
  by code_simp

lemma x2_dollars:
  "normalizeInlineDollars (''$$'' @ [LF] @ ''x^2'' @ [LF] @ ''$$'')
     = ''$$'' @ [LF] @ ''x^2'' @ [LF] @ ''$$''"
  by code_simp

lemma x2_breaks:
  "applyHardBreaks (''$$'' @ [LF] @ ''x^2'' @ [LF] @ ''$$'')
     = ''$$'' @ [LF] @ ''x^2'' @ [LF] @ ''$$''"
  by code_simp

lemma x_inline: "replaceInlineMath (replaceBlockMath (BSL # ''(x'' @ BSL # '')'')) = ''$x$''"
  by code_simp

lemma x_breaks: "applyHardBreaks ''$x$'' = ''$x$''"
  by code_simp

text \<open>
  C5, as stated: with bracket-style math enabled, preprocessing rewrites every
  \<^verbatim>\<open>\[ ... \]\<close> span to \<^verbatim>\<open>$$\ninner\n$$\<close> and every \<^verbatim>\<open>\( ... \)\<close> span to \<^verbatim>\<open>$inner$\<close>, for
  every input. The two further stages of \<^verbatim>\<open>_preprocess\<close> work on the rewritten text: with
  dollar normalization on, \<^verbatim>\<open>\(x\)\<close> preprocesses to \<^verbatim>\<open> $ x $ \<close>, and with hard-break mode
  on, a block span inside a line gets two spaces after its opening \<^verbatim>\<open>$$\<close> and after its
  content.
\<close>

theorem later_stages_alter_math_counterexample:
  "preprocess \<lparr>brackets = True, dollars = True\<rparr> False (BSL # ''(x'' @ BSL # '')'') = '' $ x $ ''
   \<and> preprocess \<lparr>brackets = True, dollars = False\<rparr> True
         (''a '' @ BSL # ''[x'' @ BSL # ''] b'' @ LF # ''c'')
       = ''a $$  '' @ [LF] @ ''x  '' @ [LF] @ ''$$ b'' @ [LF] @ ''c''"
  by code_simp

text \<open>
  C5, amended. With bracket-style math enabled, preprocessing begins with two rewrites. The
  first scans the text from left to right. A span starts at a position when an opening
  delimiter \<^verbatim>\<open>\[\<close> (one or two backslashes before the bracket) stands there and a closing
  delimiter \<^verbatim>\<open>\]\<close> follows it somewhere, line breaks allowed; its inner text ends at the
  first closing delimiter. Where a span starts, it is replaced by \<^verbatim>\<open>$$\ninner\n$$\<close> and the
  scan goes on after it; text at whose positions no span starts is kept, opening delimiters
  that nothing closes included. Every text either has no position where a span starts, and
  is kept, or has a first span, and is rewritten so. The second rewrite does the same on the
  result for \<^verbatim>\<open>\( inner \)\<close>, giving \<^verbatim>\<open>$inner$\<close>, where a span starts only when no line
  terminator stands between the opening and the closing delimiter. With dollar
  normalization and hard-break mode both off, this is all of preprocessing; otherwise those
  stages are applied to the rewritten text. \<^verbatim>\<open>\[x^2\]\<close> preprocesses to \<^verbatim>\<open>$$\nx^2\n$$\<close> under
  every such configuration, and \<^verbatim>\<open>\(x\)\<close> to \<^verbatim>\<open>$x$\<close> whenever dollar normalization is off.
\<close>

theorem bracket_rewrite:
  assumes "brackets ms"
  shows "(isDelim (CHR ''['') od \<and> isDelim (CHR '']'') cd
            \<and> noSpanWithin (CHR ''['') (CHR '']'') True pre (od @ inner @ cd @ post)
            \<and> noDelimWithin (CHR '']'') inner (cd @ post) \<longrightarrow>
          replaceBlockMath (pre @ od @ inner @ cd @ post)
            = pre @ ''$$'' @ [LF] @ inner @ [LF] @ ''$$'' @ replaceBlockMath post)
         \<and> (isDelim (CHR ''('') od' \<and> isDelim (CHR '')'') cd'
            \<and> noSpanWithin (CHR ''('') (CHR '')'') False pre' (od' @ inner' @ cd' @ post')
            \<and> noDelimWithin (CHR '')'') inner' (cd' @ post')
            \<and> list_all (\<lambda>c. \<not> isLineTerminator c) inner' \<longrightarrow>
          replaceInlineMath (pre' @ od' @ inner' @ cd' @ post')
            = pre' @ ''$'' @ inner' @ ''$'' @ replaceInlineMath post')
         \<and> (noSpanWithin (CHR ''['') (CHR '']'') True text [] \<longrightarrow> replaceBlockMath text = text)
         \<and> (noSpanWithin (CHR ''('') (CHR '')'') False text [] \<longrightarrow> replaceInlineMath text = text)
         \<and> (\<not> dollars ms \<and> \<not> respectNl \<longrightarrow>
              preprocess ms respectNl text = replaceInlineMath (replaceBlockMath text))
         \<and> preprocess ms respectNl (BSL # ''[x^2'' @ BSL # '']'')
              = ''$$'' @ [LF] @ ''x^2'' @ [LF] @ ''$$''
         \<and> (\<not> dollars ms \<longrightarrow> preprocess ms respectNl (BSL # ''(x'' @ BSL # '')'') = ''$x$'')
         \<and> (noSpanWithin (CHR ''['') (CHR '']'') True p r
              \<longleftrightarrow> (\<forall>q. suffix q p \<and> q \<noteq> [] \<longrightarrow>
                     \<not> (\<exists>od inner cd post. q @ r = od @ inner @ cd @ post
                           \<and> isDelim (CHR ''['') od \<and> isDelim (CHR '']'') cd)))
         \<and> (noSpanWithin (CHR ''('') (CHR '')'') False p r
              \<longleftrightarrow> (\<forall>q. suffix q p \<and> q \<noteq> [] \<longrightarrow>
                     \<not> (\<exists>od inner cd post. q @ r = od @ inner @ cd @ post
                           \<and> isDelim (CHR ''('') od \<and> isDelim (CHR '')'') cd
                           \<and> list_all (\<lambda>c. \<not> isLineTerminator c) inner)))
         \<and> (noSpanWithin (CHR ''['') (CHR '']'') True text []
            \<or> (\<exists>pre od inner cd post. text = pre @ od @ inner @ cd @ post
                 \<and> isDelim (CHR ''['') od \<and> isDelim (CHR '']'') cd
                 \<and> noSpanWithin (CHR ''['') (CHR '']'') True pre (od @ inner @ cd @ post)
                 \<and> noDelimWithin (CHR '']'') inner (cd @ post)))
         \<and> (noSpanWithin (CHR ''('') (CHR '')'') False text []
            \<or> (\<exists>pre od inner cd post. text = pre @ od @ inner @ cd @ post
                 \<and> isDelim (CHR ''('') od \<and> isDelim (CHR '')'') cd
                 \<and> noSpanWithin (CHR ''('') (CHR '')'') False pre (od @ inner @ cd @ post)
                 \<and> noDelimWithin (CHR '')'') inner (cd @ post)
                 \<and> list_all (\<lambda>c. \<not> isLineTerminator c) inner))"
proof -
  have A: "replaceBlockMath (pre @ od @ inner @ cd @ post)
            = pre @ ''$$'' @ [LF] @ inner @ [LF] @ ''$$'' @ replaceBlockMath post"
    if "isDelim (CHR ''['') od" "isDelim (CHR '']'') cd"
      "noSpanWithin (CHR ''['') (CHR '']'') True pre (od @ inner @ cd @ post)"
      "noDelimWithin (CHR '']'') inner (cd @ post)"
    using replaceSpans_span [OF that(1,2) _ _ that(3,4), of blockWrap]
    by (simp add: replaceBlockMath_def blockWrap_def)
  have B: "replaceInlineMath (pre' @ od' @ inner' @ cd' @ post')
            = pre' @ ''$'' @ inner' @ ''$'' @ replaceInlineMath post'"
    if "isDelim (CHR ''('') od'" "isDelim (CHR '')'') cd'"
      "noSpanWithin (CHR ''('') (CHR '')'') False pre' (od' @ inner' @ cd' @ post')"
      "noDelimWithin (CHR '')'') inner' (cd' @ post')"
      "list_all (\<lambda>c. \<not> isLineTerminator c) inner'"
    using replaceSpans_span [OF that(1,2) _ _ that(3,4), of inlineWrap] that(5)
    by (simp add: replaceInlineMath_def inlineWrap_def)
  have C1: "replaceBlockMath text = text" if "noSpanWithin (CHR ''['') (CHR '']'') True text []"
    using replaceSpans_skip [OF that, of blockWrap] by (simp add: replaceBlockMath_def)
  have C2: "replaceInlineMath text = text" if "noSpanWithin (CHR ''('') (CHR '')'') False text []"
    using replaceSpans_skip [OF that, of inlineWrap] by (simp add: replaceInlineMath_def)
  have D: "\<not> dollars ms \<and> \<not> respectNl \<longrightarrow>
              preprocess ms respectNl text = replaceInlineMath (replaceBlockMath text)"
    using assms by (simp add: preprocess_def)
  have F: "preprocess ms respectNl (BSL # ''[x^2'' @ BSL # '']'')
              = ''$$'' @ [LF] @ ''x^2'' @ [LF] @ ''$$''"
    using assms x2_block [simplified] x2_dollars [simplified] x2_breaks [simplified]
    by (simp add: preprocess_def Let_def)
  have G: "\<not> dollars ms \<longrightarrow> preprocess ms respectNl (BSL # ''(x'' @ BSL # '')'') = ''$x$''"
    using assms x_inline [simplified] x_breaks [simplified]
    by (simp add: preprocess_def Let_def)
  have M1: "noSpanWithin (CHR ''['') (CHR '']'') True p r
              \<longleftrightarrow> (\<forall>q. suffix q p \<and> q \<noteq> [] \<longrightarrow>
                     \<not> (\<exists>od inner cd post. q @ r = od @ inner @ cd @ post
                           \<and> isDelim (CHR ''['') od \<and> isDelim (CHR '']'') cd))"
    using noSpanWithin_meaning [of "CHR ''[''" "CHR '']''" True p r] by simp
  have M2: "noSpanWithin (CHR ''('') (CHR '')'') False p r
              \<longleftrightarrow> (\<forall>q. suffix q p \<and> q \<noteq> [] \<longrightarrow>
                     \<not> (\<exists>od inner cd post. q @ r = od @ inner @ cd @ post
                           \<and> isDelim (CHR ''('') od \<and> isDelim (CHR '')'') cd
                           \<and> list_all (\<lambda>c. \<not> isLineTerminator c) inner))"
    using noSpanWithin_meaning [of "CHR ''(''" "CHR '')''" False p r] by simp
  have N1: "noSpanWithin (CHR ''['') (CHR '']'') True text []
            \<or> (\<exists>pre od inner cd post. text = pre @ od @ inner @ cd @ post
                 \<and> isDelim (CHR ''['') od \<and> isDelim (CHR '']'') cd
                 \<and> noSpanWithin (CHR ''['') (CHR '']'') True pre (od @ inner @ cd @ post)
                 \<and> noDelimWithin (CHR '']'') inner (cd @ post))"
    using first_span [of "CHR ''[''" "CHR '']''" True "text"] by simp
  have N2: "noSpanWithin (CHR ''('') (CHR '')'') False text []
            \<or> (\<exists>pre od inner cd post. text = pre @ od @ inner @ cd @ post
                 \<and> isDelim (CHR ''('') od \<and> isDelim (CHR '')'') cd
                 \<and> noSpanWithin (CHR ''('') (CHR '')'') False pre (od @ inner @ cd @ post)
                 \<and> noDelimWithin (CHR '')'') inner (cd @ post)
                 \<and> list_all (\<lambda>c. \<not> isLineTerminator c) inner)"
    using first_span [of "CHR ''(''" "CHR '')''" False "text"] by simp
  show ?thesis
    using A B C1 C2 D F G M1 M2 N1 N2 by (intro conjI impI) (blast | assumption)+
qed

theorem bracket_rewrite_witness:
  "brackets \<lparr>brackets = True, dollars = False\<rparr>
   \<and> replaceBlockMath (''a '' @ [BSL, BSL] @ ''[x'' @ [LF] @ ''y'' @ [BSL] @ ''] b '' @ [BSL] @ ''[z'' @ [BSL] @ '']'')
       = ''a $$'' @ [LF] @ ''x'' @ [LF] @ ''y'' @ [LF] @ ''$$ b $$'' @ [LF] @ ''z'' @ [LF] @ ''$$''
   \<and> replaceInlineMath (''see '' @ [BSL] @ ''(p+q'' @ [BSL] @ '') now'') = ''see $p+q$ now''
   \<and> replaceInlineMath (BSL # ''(a'' @ LF # ''b '' @ BSL # ''(x'' @ BSL # '')'')
       = BSL # ''(a'' @ LF # ''b $x$''
   \<and> replaceBlockMath (''a '' @ BSL # ''[b'') = ''a '' @ BSL # ''[b''
   \<and> preprocess \<lparr>brackets = True, dollars = False\<rparr> False (''see '' @ [BSL] @ ''(p+q'' @ [BSL] @ '') now'')
       = ''see $p+q$ now''
   \<and> preprocess \<lparr>brackets = True, dollars = False\<rparr> True (BSL # ''(x'' @ BSL # '')'') = ''$x$''
   \<and> preprocess \<lparr>brackets = True, dollars = False\<rparr> True (BSL # ''[x^2'' @ BSL # '']'')
       = ''$$'' @ [LF] @ ''x^2'' @ [LF] @ ''$$''"
proof -
  let ?ms = "\<lparr>brackets = True, dollars = False\<rparr>"
  have en: "brackets ?ms" by simp
  note th = bracket_rewrite [OF en]
  have h1: "isDelim (CHR ''['') [BSL, BSL, CHR ''['']" "isDelim (CHR '']'') [BSL, CHR '']'']"
    "isDelim (CHR ''['') [BSL, CHR ''['']"
    "isDelim (CHR ''('') [BSL, CHR ''('']" "isDelim (CHR '')'') [BSL, CHR '')'']"
    by (simp_all add: isDelim_def)
  have n1: "noSpanWithin (CHR ''['') (CHR '']'') True ''a ''
              ([BSL, BSL, CHR ''[''] @ (''x'' @ [LF] @ ''y'') @ [BSL, CHR '']'']
                 @ ('' b '' @ [BSL] @ ''[z'' @ [BSL] @ '']''))"
    "noDelimWithin (CHR '']'') (''x'' @ [LF] @ ''y'')
              ([BSL, CHR '']''] @ ('' b '' @ [BSL] @ ''[z'' @ [BSL] @ '']''))"
    by (simp_all add: spanAt_def delimAt_def)
  have n2: "noSpanWithin (CHR ''['') (CHR '']'') True '' b '' ([BSL, CHR ''[''] @ ''z'' @ [BSL, CHR '']''] @ [])"
    "noDelimWithin (CHR '']'') ''z'' ([BSL, CHR '']''] @ [])"
    by (simp_all add: spanAt_def delimAt_def)
  have n3: "noSpanWithin (CHR ''('') (CHR '')'') False ''see '' ([BSL, CHR ''(''] @ ''p+q'' @ [BSL, CHR '')''] @ '' now'')"
    "noDelimWithin (CHR '')'') ''p+q'' ([BSL, CHR '')''] @ '' now'')"
    "list_all (\<lambda>c. \<not> isLineTerminator c) ''p+q''"
    "noSpanWithin (CHR ''('') (CHR '')'') False '' now'' []"
    "noSpanWithin (CHR ''['') (CHR '']'') True (''see '' @ [BSL] @ ''(p+q'' @ [BSL] @ '') now'') []"
    by (simp_all add: spanAt_def delimAt_def isLineTerminator_def)
  have n4: "noSpanWithin (CHR ''('') (CHR '')'') False (BSL # ''(a'' @ LF # ''b '')
              ([BSL, CHR ''(''] @ ''x'' @ [BSL, CHR '')''] @ [])"
    "noDelimWithin (CHR '')'') ''x'' ([BSL, CHR '')''] @ [])"
    "list_all (\<lambda>c. \<not> isLineTerminator c) ''x''"
    "noSpanWithin (CHR ''['') (CHR '']'') True (''a '' @ BSL # ''[b'') []"
    by (simp_all add: spanAt_def delimAt_def isLineTerminator_def)
  have e: "replaceBlockMath [] = []" "replaceInlineMath [] = []"
    by (simp_all add: replaceBlockMath_def replaceInlineMath_def)
  from th [THEN conjunct1, rule_format, of "[BSL, CHR ''['']" "[BSL, CHR '']'']" "'' b ''" "''z''" "[]"]
    h1 n2 e
  have b2: "replaceBlockMath ('' b '' @ [BSL] @ ''[z'' @ [BSL] @ '']'')
              = '' b $$'' @ [LF] @ ''z'' @ [LF] @ ''$$''"
    by simp
  from th [THEN conjunct1, rule_format, of "[BSL, BSL, CHR ''['']" "[BSL, CHR '']'']" "''a ''"
      "''x'' @ [LF] @ ''y''" "'' b '' @ [BSL] @ ''[z'' @ [BSL] @ '']''"] h1 n1
  have b1: "replaceBlockMath (''a '' @ [BSL, BSL] @ ''[x'' @ [LF] @ ''y'' @ [BSL] @ ''] b '' @ [BSL] @ ''[z'' @ [BSL] @ '']'')
      = ''a $$'' @ [LF] @ ''x'' @ [LF] @ ''y'' @ [LF] @ ''$$'' @ replaceBlockMath ('' b '' @ [BSL] @ ''[z'' @ [BSL] @ '']'')"
    by simp
  have i0: "replaceInlineMath '' now'' = '' now''"
    using th [THEN conjunct2, THEN conjunct2, THEN conjunct2, THEN conjunct1, rule_format,
        of "'' now''"] n3(4)
    by simp
  from th [THEN conjunct2, THEN conjunct1, rule_format, of "[BSL, CHR ''('']" "[BSL, CHR '')'']"
      "''see ''" "''p+q''" "'' now''"] h1 n3 i0
  have i1: "replaceInlineMath (''see '' @ [BSL] @ ''(p+q'' @ [BSL] @ '') now'') = ''see $p+q$ now''"
    by simp
  from th [THEN conjunct2, THEN conjunct1, rule_format, of "[BSL, CHR ''('']" "[BSL, CHR '')'']"
      "BSL # ''(a'' @ LF # ''b ''" "''x''" "[]"] h1 n4 e
  have i2: "replaceInlineMath (BSL # ''(a'' @ LF # ''b '' @ BSL # ''(x'' @ BSL # '')'')
              = BSL # ''(a'' @ LF # ''b $x$''"
    by simp
  have b3: "replaceBlockMath (''a '' @ BSL # ''[b'') = ''a '' @ BSL # ''[b''"
    using th [THEN conjunct2, THEN conjunct2, THEN conjunct1, rule_format,
        of "''a '' @ BSL # ''[b''"] n4(4)
    by simp
  have nb: "replaceBlockMath (''see '' @ [BSL] @ ''(p+q'' @ [BSL] @ '') now'')
              = ''see '' @ [BSL] @ ''(p+q'' @ [BSL] @ '') now''"
    using th [THEN conjunct2, THEN conjunct2, THEN conjunct1, rule_format,
        of "''see '' @ [BSL] @ ''(p+q'' @ [BSL] @ '') now''"] n3(5)
    by simp
  from th [THEN conjunct2, THEN conjunct2, THEN conjunct2, THEN conjunct2, THEN conjunct1,
      rule_format, of False "''see '' @ [BSL] @ ''(p+q'' @ [BSL] @ '') now''"] nb i1
  have p: "preprocess ?ms False (''see '' @ [BSL] @ ''(p+q'' @ [BSL] @ '') now'') = ''see $p+q$ now''"
    by simp
  have nd: "\<not> dollars ?ms" by simp
  have x: "preprocess ?ms True (BSL # ''(x'' @ BSL # '')'') = ''$x$''"
    using th [THEN conjunct2, THEN conjunct2, THEN conjunct2, THEN conjunct2, THEN conjunct2,
        THEN conjunct2, THEN conjunct1, of True] nd by simp
  have y: "preprocess ?ms True (BSL # ''[x^2'' @ BSL # '']'') = ''$$'' @ [LF] @ ''x^2'' @ [LF] @ ''$$''"
    using th [THEN conjunct2, THEN conjunct2, THEN conjunct2, THEN conjunct2, THEN conjunct2,
        THEN conjunct1, of True] by simp
  from en b1 b2 i1 i2 b3 p x y show ?thesis by simp
qed

section \<open>Hard breaks\<close>

lemma hardBreakLines_Cons:
  "hardBreakLines code math (line # ls)
     = lineOut code math line (case ls of [] \<Rightarrow> [] | n # _ \<Rightarrow> n)
       @ hardBreakLines (fst (lineState code math line)) (snd (lineState code math line)) ls"
  by (simp add: lineOut_def lineState_def Let_def)

lemma lineOut_last: "lineOut code math line [] = [line]"
  by (simp add: lineOut_def Let_def trim_def)

lemma lineOut_nonempty: "lineOut code math line nxt \<noteq> []"
  by (simp add: lineOut_def Let_def)

lemma hardBreakLines_single: "hardBreakLines code math [x] = [x]"
  by (simp only: hardBreakLines_Cons list.case lineOut_last hardBreakLines.simps(1) append_Nil2)

lemma hardBreakLines_nonempty: "hardBreakLines code math (l # ls) \<noteq> []"
  by (simp only: hardBreakLines_Cons) (simp add: lineOut_nonempty)

lemma next_of_append:
  "(case ls @ x # suf of [] \<Rightarrow> [] | n # _ \<Rightarrow> n) = (case ls @ [x] of [] \<Rightarrow> [] | n # _ \<Rightarrow> n)"
  by (cases ls) simp_all

lemma fenceState_append:
  "fenceState code math (pre @ [line])
     = lineState (fst (fenceState code math pre)) (snd (fenceState code math pre)) line"
  by (induction pre arbitrary: code math) simp_all

text \<open>
  The output for a list of lines, cut at any line \<open>x\<close>: what the loop pushes for the lines
  before \<open>x\<close>, then what it pushes from \<open>x\<close> on, started with the toggles as the lines before
  \<open>x\<close> leave them.
\<close>

lemma hardBreakLines_append:
  "hardBreakLines code math (pre @ x # suf)
     = butlast (hardBreakLines code math (pre @ [x]))
       @ hardBreakLines (fst (fenceState code math pre)) (snd (fenceState code math pre)) (x # suf)"
proof (induction pre arbitrary: code math)
  case Nil
  show ?case by (simp only: append_Nil hardBreakLines_single fenceState.simps) simp
next
  case (Cons l ls)
  let ?c = "fst (lineState code math l)" and ?m = "snd (lineState code math l)"
  have ne: "hardBreakLines ?c ?m (ls @ [x]) \<noteq> []"
    by (cases ls) (simp_all only: append_Nil append_Cons hardBreakLines_nonempty not_False_eq_True)
  have s1: "hardBreakLines code math ((l # ls) @ x # suf)
          = lineOut code math l (case ls @ [x] of [] \<Rightarrow> [] | n # _ \<Rightarrow> n)
            @ hardBreakLines ?c ?m (ls @ x # suf)"
    using hardBreakLines_Cons [of code math l "ls @ x # suf"] next_of_append [of ls x suf]
    by simp
  have s2: "hardBreakLines ?c ?m (ls @ x # suf)
          = butlast (hardBreakLines ?c ?m (ls @ [x]))
            @ hardBreakLines (fst (fenceState ?c ?m ls)) (snd (fenceState ?c ?m ls)) (x # suf)"
    by (rule Cons.IH)
  have s3: "butlast (hardBreakLines code math ((l # ls) @ [x]))
          = lineOut code math l (case ls @ [x] of [] \<Rightarrow> [] | n # _ \<Rightarrow> n)
            @ butlast (hardBreakLines ?c ?m (ls @ [x]))"
    using ne hardBreakLines_Cons [of code math l "ls @ [x]"] by (simp add: butlast_append)
  show ?case
    unfolding s1 s2 s3 by simp
qed

lemma lineOut_plain:
  assumes "\<not> isFenceLine (trim line)" and "\<not> startsWith (trim line) ''$$''"
    and "trim line \<noteq> []" and "trim nxt \<noteq> []" and "\<not> blockStart (trim nxt)"
  shows "lineOut False False line nxt
           = [if endsTwoSpace line then line else line @ ''  '']
             @ (if closingHtmlBlock (trim line) then [[]] else [])"
    and "lineState False False line = (False, False)"
  using assms by (simp_all add: lineOut_def lineState_def Let_def)

lemma lineOut_before_heading: "headingStart (trim nxt) \<Longrightarrow> lineOut code math line nxt = [line]"
  by (simp add: lineOut_def Let_def blockStart_def)

text \<open>
  C6, as stated: a line outside fences and block math, with content, whose next line has
  content and is no block start, gets two spaces appended unless it already ends in two
  trailing spaces. The test of the source is \<^verbatim>\<open>/\s\s$/\<close>: two trailing white-space
  characters of any kind. A line that ends in two tabs does not end in two spaces, and
  nothing is appended to it.
\<close>

theorem two_tabs_counterexample:
  "splitLines (crlfToLf (''a'' @ [TAB, TAB, LF] @ ''b'')) = [''a'' @ [TAB, TAB], ''b'']
   \<and> trim (''a'' @ [TAB, TAB]) = ''a'' \<and> trim ''b'' = ''b'' \<and> \<not> blockStart ''b''
   \<and> \<not> suffix ''  '' (''a'' @ [TAB, TAB])
   \<and> applyHardBreaks (''a'' @ [TAB, TAB, LF] @ ''b'') = ''a'' @ [TAB, TAB, LF] @ ''b''
   \<and> preprocess \<lparr>brackets = True, dollars = False\<rparr> True (''a'' @ [TAB, TAB, LF] @ ''b'')
       = ''a'' @ [TAB, TAB, LF] @ ''b''"
  by code_simp

text \<open>
  C6, amended. The hard-break stage (run by preprocessing when bracket-style math and
  hard-break mode are both enabled) treats a line \<open>line\<close> followed by a line \<open>nxt\<close> as
  follows. When \<open>line\<close> is outside code fences and block math, is not itself a fence or
  \<^verbatim>\<open>$$\<close> line, has content, and \<open>nxt\<close> has content and is not a block start (heading,
  blockquote, bullet or numbered item, fence, raw HTML tag, blank), then exactly two spaces
  are appended to \<open>line\<close> unless it already ends in two white-space characters, and, when
  \<open>line\<close> closes one of the block-level HTML tags, an empty line is inserted after it. When
  \<open>nxt\<close> is a heading line, \<open>line\<close> is kept as it is. The lines before and after are
  processed on their own.
\<close>

theorem hard_breaks_inserted:
  assumes "splitLines (crlfToLf input) = pre @ line # nxt # post"
  shows "(fenceState False False pre = (False, False)
            \<and> \<not> isFenceLine (trim line) \<and> \<not> startsWith (trim line) ''$$''
            \<and> trim line \<noteq> [] \<and> trim nxt \<noteq> [] \<and> \<not> blockStart (trim nxt) \<longrightarrow>
          applyHardBreaks input
            = joinLines (butlast (hardBreakLines False False (pre @ [line]))
                @ [if endsTwoSpace line then line else line @ ''  '']
                @ (if closingHtmlBlock (trim line) then [[]] else [])
                @ hardBreakLines False False (nxt # post)))
         \<and> (headingStart (trim nxt) \<longrightarrow>
          applyHardBreaks input
            = joinLines (butlast (hardBreakLines False False (pre @ [line]))
                @ [line]
                @ hardBreakLines (fst (fenceState False False (pre @ [line])))
                    (snd (fenceState False False (pre @ [line]))) (nxt # post)))
         \<and> (brackets ms \<longrightarrow>
          preprocess ms True text
            = applyHardBreaks (if dollars ms
                               then normalizeInlineDollars (replaceInlineMath (replaceBlockMath text))
                               else replaceInlineMath (replaceBlockMath text)))"
proof -
  let ?c = "fst (fenceState False False pre)" and ?m = "snd (fenceState False False pre)"
  have cut: "applyHardBreaks input
      = joinLines (butlast (hardBreakLines False False (pre @ [line]))
          @ lineOut ?c ?m line nxt
          @ hardBreakLines (fst (lineState ?c ?m line)) (snd (lineState ?c ?m line)) (nxt # post))"
    unfolding applyHardBreaks_def assms
    by (simp only: hardBreakLines_append [of False False pre line "nxt # post"]
          hardBreakLines_Cons [of ?c ?m line "nxt # post"] list.case)
  have A: "applyHardBreaks input
            = joinLines (butlast (hardBreakLines False False (pre @ [line]))
                @ [if endsTwoSpace line then line else line @ ''  '']
                @ (if closingHtmlBlock (trim line) then [[]] else [])
                @ hardBreakLines False False (nxt # post))"
    if "fenceState False False pre = (False, False)"
      "\<not> isFenceLine (trim line)" "\<not> startsWith (trim line) ''$$''"
      "trim line \<noteq> []" "trim nxt \<noteq> []" "\<not> blockStart (trim nxt)"
    unfolding cut using that(1) lineOut_plain [OF that(2-6)] by simp
  have B: "applyHardBreaks input
            = joinLines (butlast (hardBreakLines False False (pre @ [line]))
                @ [line]
                @ hardBreakLines (fst (fenceState False False (pre @ [line])))
                    (snd (fenceState False False (pre @ [line]))) (nxt # post))"
    if "headingStart (trim nxt)"
    unfolding cut fenceState_append lineOut_before_heading [OF that] ..
  have C: "brackets ms \<longrightarrow>
          preprocess ms True text
            = applyHardBreaks (if dollars ms
                               then normalizeInlineDollars (replaceInlineMath (replaceBlockMath text))
                               else replaceInlineMath (replaceBlockMath text))"
    by (simp add: preprocess_def Let_def)
  from A B C show ?thesis by blast
qed

theorem hard_breaks_inserted_witness:
  "splitLines (crlfToLf (''one'' @ [LF] @ ''two'' @ [LF] @ ''</div>'' @ [LF] @ ''end'' @ [LF] @ ''# h''))
     = [''one'', ''two''] @ ''</div>'' # ''end'' # [''# h'']
   \<and> applyHardBreaks (''one'' @ [LF] @ ''two'' @ [LF] @ ''</div>'' @ [LF] @ ''end'' @ [LF] @ ''# h'')
       = ''one  '' @ [LF] @ ''two'' @ [LF] @ ''</div>  '' @ [LF] @ [LF] @ ''end'' @ [LF] @ ''# h''
   \<and> preprocess \<lparr>brackets = True, dollars = False\<rparr> True
        (''one'' @ [LF] @ ''two'' @ [LF] @ ''</div>'' @ [LF] @ ''end'' @ [LF] @ ''# h'')
       = ''one  '' @ [LF] @ ''two'' @ [LF] @ ''</div>  '' @ [LF] @ [LF] @ ''end'' @ [LF] @ ''# h''"
proof -
  let ?input = "''one'' @ [LF] @ ''two'' @ [LF] @ ''</div>'' @ [LF] @ ''end'' @ [LF] @ ''# h''"
  let ?out = "''one  '' @ [LF] @ ''two'' @ [LF] @ ''</div>  '' @ [LF] @ [LF] @ ''end'' @ [LF] @ ''# h''"
  have sp2: "splitLines (crlfToLf ?input) = [''one'', ''two''] @ ''</div>'' # ''end'' # [''# h'']"
    by code_simp
  have sp3: "splitLines (crlfToLf ?input) = [''one'', ''two'', ''</div>''] @ ''end'' # ''# h'' # []"
    by code_simp
  have h2: "fenceState False False [''one'', ''two''] = (False, False)"
    "\<not> isFenceLine (trim ''</div>'')" "\<not> startsWith (trim ''</div>'') ''$$''"
    "trim ''</div>'' \<noteq> []" "trim ''end'' \<noteq> []" "\<not> blockStart (trim ''end'')"
    "closingHtmlBlock (trim ''</div>'')" "\<not> endsTwoSpace ''</div>''"
    by code_simp+
  have pre2: "butlast (hardBreakLines False False ([''one'', ''two''] @ [''</div>''])) = [''one  '', ''two'']"
    by code_simp
  have tail2: "hardBreakLines False False (''end'' # [''# h'']) = [''end'', ''# h'']"
    by code_simp
  have jl2: "joinLines ([''one  '', ''two''] @ [''</div>'' @ ''  ''] @ [[]] @ [''end'', ''# h'']) = ?out"
    by code_simp
  from hard_breaks_inserted [OF sp2, THEN conjunct1]
  have closing: "applyHardBreaks ?input = ?out"
    by (simp only: h2 pre2 tail2 jl2 simp_thms if_True if_False)
  have h3: "headingStart (trim ''# h'')"
    "fenceState False False ([''one'', ''two'', ''</div>''] @ [''end'']) = (False, False)"
    by code_simp+
  have pre3: "butlast (hardBreakLines False False ([''one'', ''two'', ''</div>''] @ [''end'']))
                = [''one  '', ''two'', ''</div>  '', []]"
    by code_simp
  have last3: "hardBreakLines False False [''# h''] = [''# h'']"
    by code_simp
  have jl3: "joinLines ([''one  '', ''two'', ''</div>  '', []] @ [''end''] @ [''# h'']) = ?out"
    by code_simp
  from hard_breaks_inserted [OF sp3, THEN conjunct2, THEN conjunct1]
  have heading: "applyHardBreaks ?input = ?out"
    by (simp only: h3 pre3 last3 jl3 simp_thms fst_conv snd_conv)
  have nb: "replaceInlineMath (replaceBlockMath ?input) = ?input"
    by code_simp
  have en: "brackets \<lparr>brackets = True, dollars = False\<rparr>"
    "\<not> dollars \<lparr>brackets = True, dollars = False\<rparr>"
    by simp_all
  from hard_breaks_inserted [OF sp2, THEN conjunct2, THEN conjunct2,
      of "\<lparr>brackets = True, dollars = False\<rparr>" ?input]
  have pre: "preprocess \<lparr>brackets = True, dollars = False\<rparr> True ?input = ?out"
    by (simp only: en nb closing simp_thms if_False)
  from sp2 closing pre show ?thesis
    by (simp only: simp_thms)
qed

section \<open>The bracket flag gates the preprocessor\<close>

text \<open>
  C10. When bracket-style math is disabled, \<^verbatim>\<open>_preprocess\<close> returns its input unchanged, for
  every input text and whatever the dollar-normalization and hard-break flags are: the
  bracket flag gates the whole preprocessing stage.
\<close>

theorem preprocess_gated_by_brackets:
  "\<not> brackets ms \<Longrightarrow> preprocess ms respectNl text = text"
  by (simp add: preprocess_def)

theorem preprocess_gated_by_brackets_witness:
  "\<not> brackets \<lparr>brackets = False, dollars = True\<rparr>
   \<and> preprocess \<lparr>brackets = False, dollars = True\<rparr> True (''cost$5'' @ [LF] @ ''next'')
       = ''cost$5'' @ [LF] @ ''next''
   \<and> applyHardBreaks (normalizeInlineDollars (''cost$5'' @ [LF] @ ''next''))
       \<noteq> ''cost$5'' @ [LF] @ ''next''"
proof -
  have "applyHardBreaks (normalizeInlineDollars (''cost$5'' @ [LF] @ ''next''))
          = ''cost $ 5  '' @ [LF] @ ''next''"
    by code_simp
  then show ?thesis
    using preprocess_gated_by_brackets [of "\<lparr>brackets = False, dollars = True\<rparr>" True
        "''cost$5'' @ [LF] @ ''next''"]
    by simp
qed

end
